theory Spec2Isabelle
  imports Main
begin

section \<open>Errors\<close>

text \<open>
  A thrown JavaScript value. \<open>new CliError(code, message, { retryable })\<close> is a value with
  \<open>is_cli_error = True\<close>; callbacks may also throw plain objects such as
  \<open>{ status: 500, message: ... }\<close> or \<open>{ code: "internal_error" }\<close>. The fields are the
  ones the program inspects: \<open>instanceof CliError\<close>, \<open>.code\<close>, \<open>.status\<close>, \<open>.message\<close>,
  \<open>.retryable\<close>.
\<close>

record thrown =
  is_cli_error :: bool
  err_code :: "string option"
  err_status :: "int option"
  err_message :: string
  err_retryable :: bool

text \<open>
  Modelled from the spec: the class \<open>CliError\<close> (errors/cli-error.js) is not among the
  sources. The spec's error taxonomy gives every error a code (\<open>invalid_input\<close>,
  \<open>not_found\<close>, \<open>conflict\<close>, \<open>retryable_upstream\<close>, \<open>internal_error\<close>) and marks the
  retryable ones; the call sites pass the code, a message and \<open>{ retryable: true }\<close>
  where the error is retryable, and the tests read \<open>code\<close>, \<open>message\<close> and \<open>retryable\<close>
  from a thrown instance.
\<close>

definition CliError :: "string \<Rightarrow> string \<Rightarrow> bool \<Rightarrow> thrown" where
  "CliError c m r =
     \<lparr>is_cli_error = True, err_code = Some c, err_status = None, err_message = m,
      err_retryable = r\<rparr>"

section \<open>Idempotency store (src/idempotency/store.ts)\<close>

definition PRUNE_TTL_MS :: int where
  "PRUNE_TTL_MS = 180000"

record StoreEntry =
  inputHash :: string
  responseJson :: string
  createdAt :: int

type_synonym StoreData = "string \<rightharpoonup> StoreEntry"

datatype 'r IdempotencyLookup =
  Miss
| PendingL
| ReplayL 'r
| ConflictL string

datatype 'r IdempotencyReservation =
  Execute
| PendingR
| ReplayR 'r
| ConflictR string

text \<open>
  \<open>JSON.stringify\<close> and \<open>JSON.parse\<close> belong to the runtime, not to the repository; they
  are parameters of the model. \<open>stringify\<close> returns the JSON text, or \<open>Inl\<close> of the value
  thrown where \<open>JSON.stringify\<close> throws (a \<open>TypeError\<close> for a BigInt or for a cyclic
  object); \<open>parse\<close> returns \<open>None\<close> where \<open>JSON.parse\<close> throws. The outcomes \<open>'r\<close> are
  the values a mutation resolves to; \<open>undefined\<close>, for which \<open>JSON.stringify\<close> returns no
  text, is not among them.
\<close>

record 'r json_codec =
  stringify :: "'r \<Rightarrow> thrown + string"
  parse :: "string \<Rightarrow> 'r option"

text \<open>\<open>JSON.stringify({ __notion_lite_pending: true })\<close>\<close>

definition PENDING_RESPONSE_JSON :: string where
  "PENDING_RESPONSE_JSON =
     [CHR ''{'', CHR 0x22] @ ''__notion_lite_pending'' @ [CHR 0x22] @ '':true}''"

definition compositeKey :: "string \<Rightarrow> string \<Rightarrow> string" where
  "compositeKey idempotencyKey commandName = idempotencyKey @ [CHR 0x00] @ commandName"

text \<open>
  The backing file: absent, not parseable as JSON, or a JSON object of entries.
\<close>

datatype store_file = Missing | Corrupt | Json StoreData

text \<open>The pruning loop of \<open>loadDataUnlocked\<close>: every key older than the TTL is deleted.\<close>

definition prune :: "int \<Rightarrow> StoreData \<Rightarrow> StoreData" where
  "prune now d =
     (\<lambda>k. case d k of
            None \<Rightarrow> None
          | Some e \<Rightarrow> if now - createdAt e > PRUNE_TTL_MS then None else Some e)"

text \<open>
  \<open>loadDataUnlocked\<close> returns the loaded map and the file it leaves behind: a corrupt file
  is overwritten with \<open>{}\<close>; a pruned map is written back (when nothing was pruned the
  file is not rewritten and the pruned map is the file's content anyway).
\<close>

fun loadDataUnlocked :: "int \<Rightarrow> store_file \<Rightarrow> StoreData \<times> store_file" where
  "loadDataUnlocked now Missing = (Map.empty, Missing)"
| "loadDataUnlocked now Corrupt = (Map.empty, Json Map.empty)"
| "loadDataUnlocked now (Json d) = (prune now d, Json (prune now d))"

definition corrupt_error :: thrown where
  "corrupt_error = CliError ''internal_error'' ''Stored idempotency response is corrupt.'' False"

definition finalize_error :: thrown where
  "finalize_error =
     CliError ''internal_error''
       ''Failed to finalize idempotency record for mutation replay.'' False"

text \<open>
  The four operations, each the function that the method passes to \<open>withLock\<close>, run
  with the lock held (\<open>withLock\<close> itself follows below). \<open>now\<close> is the value of
  \<open>Date.now()\<close> during the operation. Each returns what the function returns or throws,
  and the file afterwards. Reading a file that cannot be read is \<open>Missing\<close>; writing the
  file is taken to succeed.
\<close>

definition lookup ::
  "'r json_codec \<Rightarrow> string \<Rightarrow> string \<Rightarrow> string \<Rightarrow> int \<Rightarrow> store_file
     \<Rightarrow> (thrown + 'r IdempotencyLookup) \<times> store_file" where
  "lookup J idempotencyKey commandName inputHash' now f =
     (let (data, f1) = loadDataUnlocked now f in
      case data (compositeKey idempotencyKey commandName) of
        None \<Rightarrow> (Inr Miss, f1)
      | Some entry \<Rightarrow>
          if inputHash entry \<noteq> inputHash' then (Inr (ConflictL (inputHash entry)), f1)
          else if responseJson entry = PENDING_RESPONSE_JSON then (Inr PendingL, f1)
          else (case parse J (responseJson entry) of
                  Some r \<Rightarrow> (Inr (ReplayL r), f1)
                | None \<Rightarrow> (Inl corrupt_error, f1)))"

definition reserve ::
  "'r json_codec \<Rightarrow> string \<Rightarrow> string \<Rightarrow> string \<Rightarrow> int \<Rightarrow> store_file
     \<Rightarrow> (thrown + 'r IdempotencyReservation) \<times> store_file" where
  "reserve J idempotencyKey commandName inputHash' now f =
     (let (data, f1) = loadDataUnlocked now f;
          key = compositeKey idempotencyKey commandName in
      case data key of
        None \<Rightarrow>
          (Inr Execute,
           Json (data(key \<mapsto>
             \<lparr>inputHash = inputHash', responseJson = PENDING_RESPONSE_JSON, createdAt = now\<rparr>)))
      | Some entry \<Rightarrow>
          if inputHash entry \<noteq> inputHash' then (Inr (ConflictR (inputHash entry)), f1)
          else if responseJson entry = PENDING_RESPONSE_JSON then (Inr PendingR, f1)
          else (case parse J (responseJson entry) of
                  Some r \<Rightarrow> (Inr (ReplayR r), f1)
                | None \<Rightarrow> (Inl corrupt_error, f1)))"

definition complete ::
  "'r json_codec \<Rightarrow> string \<Rightarrow> string \<Rightarrow> string \<Rightarrow> 'r \<Rightarrow> int \<Rightarrow> store_file
     \<Rightarrow> (thrown + unit) \<times> store_file" where
  "complete J idempotencyKey commandName inputHash' response now f =
     (let (data, f1) = loadDataUnlocked now f;
          key = compositeKey idempotencyKey commandName in
      case data key of
        None \<Rightarrow>
          (case stringify J response of
             Inl e \<Rightarrow> (Inl e, f1)
           | Inr json \<Rightarrow>
               (Inr (),
                Json (data(key \<mapsto>
                  \<lparr>inputHash = inputHash', responseJson = json, createdAt = now\<rparr>))))
      | Some entry \<Rightarrow>
          if inputHash entry \<noteq> inputHash' then (Inl finalize_error, f1)
          else
            (case stringify J response of
               Inl e \<Rightarrow> (Inl e, f1)
             | Inr json \<Rightarrow>
                 (Inr (),
                  Json (data(key \<mapsto> entry\<lparr>responseJson := json, createdAt := now\<rparr>)))))"

definition release ::
  "string \<Rightarrow> string \<Rightarrow> string \<Rightarrow> int \<Rightarrow> store_file \<Rightarrow> store_file" where
  "release idempotencyKey commandName inputHash' now f =
     (let (data, f1) = loadDataUnlocked now f;
          key = compositeKey idempotencyKey commandName in
      case data key of
        None \<Rightarrow> f1
      | Some entry \<Rightarrow>
          if inputHash entry = inputHash' \<and> responseJson entry = PENDING_RESPONSE_JSON
          then Json (data(key := None))
          else f1)"

text \<open>The entry a file holds under a composite key, as stored (before any pruning).\<close>

fun stored :: "store_file \<Rightarrow> StoreData" where
  "stored Missing = Map.empty"
| "stored Corrupt = Map.empty"
| "stored (Json d) = d"

subsection \<open>The lock around every operation\<close>

definition LOCK_WAIT_TIMEOUT_MS :: int where
  "LOCK_WAIT_TIMEOUT_MS = 35000"

definition LOCK_POLL_INTERVAL_MS :: int where
  "LOCK_POLL_INTERVAL_MS = 30"

text \<open>
  What one pass through the \<open>try\<close> block of \<open>acquireLock\<close> meets: \<open>openSync(lockPath, "wx")\<close>
  creates the lock file and it is written; the file exists already (\<open>EEXIST\<close>); or
  \<open>openSync\<close> or \<open>writeFileSync\<close> throws an error with another code. Whether the file
  exists is decided by the other processes and by \<open>tryClearStaleLock\<close>, which removes a
  lock older than 30 seconds before the next attempt, so the environment gives the
  outcome of the \<open>i\<close>-th attempt; it also gives \<open>Math.random()\<close> of the \<open>i\<close>-th sleep, as
  the integer \<open>Math.floor(Math.random() * 20)\<close>.
\<close>

datatype lock_attempt = Created | Exists | Failed

record lock_env =
  attempt :: "nat \<Rightarrow> lock_attempt"
  jitter :: "nat \<Rightarrow> nat"

definition lock_failed_error :: thrown where
  "lock_failed_error =
     CliError ''internal_error'' ''Failed to acquire idempotency store lock.'' False"

definition store_busy_error :: thrown where
  "store_busy_error =
     CliError ''retryable_upstream'' ''Idempotency store is busy. Retry shortly.'' True"

text \<open>
  \<open>acquireLock\<close>: the loop \<open>while (Date.now() < deadline)\<close>, its \<open>i\<close>-th pass at time
  \<open>now\<close>. It returns the time at which the lock is held, or what it throws. A sleep lasts
  its 30 to 49 ms, so the loop ends.
\<close>

function acquireLock :: "lock_env \<Rightarrow> int \<Rightarrow> nat \<Rightarrow> int \<Rightarrow> thrown + int" where
  "acquireLock E deadline i now =
     (if now < deadline then
        (case attempt E i of
           Created \<Rightarrow> Inr now
         | Failed \<Rightarrow> Inl lock_failed_error
         | Exists \<Rightarrow>
             acquireLock E deadline (Suc i)
               (now + (LOCK_POLL_INTERVAL_MS + int (jitter E i mod 20))))
      else Inl store_busy_error)"
  by pat_completeness auto

termination
  by (relation "measure (\<lambda>(E, deadline, i, now). nat (deadline - now))")
     (auto simp: LOCK_POLL_INTERVAL_MS_def)

declare acquireLock.simps [simp del]

text \<open>
  \<open>withLock\<close>, called at time \<open>now\<close> on the file \<open>f\<close>: when the lock cannot be acquired
  the error is thrown and \<open>fn\<close> does not run; otherwise \<open>fn\<close> runs at the time the lock
  was obtained, and the lock is released (\<open>releaseLock\<close> swallows its own errors).
\<close>

definition withLock ::
  "lock_env \<Rightarrow> int \<Rightarrow> (int \<Rightarrow> store_file \<Rightarrow> (thrown + 'a) \<times> store_file) \<Rightarrow> store_file
     \<Rightarrow> (thrown + 'a) \<times> store_file" where
  "withLock E now fn f =
     (case acquireLock E (now + LOCK_WAIT_TIMEOUT_MS) 0 now of
        Inl e \<Rightarrow> (Inl e, f)
      | Inr held \<Rightarrow> fn held f)"

text \<open>
  The methods \<open>lookup\<close> and \<open>complete\<close> of \<open>IdempotencyStore\<close> as a caller meets them,
  lock included.
\<close>

definition locked_lookup ::
  "lock_env \<Rightarrow> 'r json_codec \<Rightarrow> string \<Rightarrow> string \<Rightarrow> string \<Rightarrow> int \<Rightarrow> store_file
     \<Rightarrow> (thrown + 'r IdempotencyLookup) \<times> store_file" where
  "locked_lookup E J idempotencyKey commandName inputHash' now f =
     withLock E now (lookup J idempotencyKey commandName inputHash') f"

definition locked_complete ::
  "lock_env \<Rightarrow> 'r json_codec \<Rightarrow> string \<Rightarrow> string \<Rightarrow> string \<Rightarrow> 'r \<Rightarrow> int \<Rightarrow> store_file
     \<Rightarrow> (thrown + unit) \<times> store_file" where
  "locked_complete E J idempotencyKey commandName inputHash' response now f =
     withLock E now (complete J idempotencyKey commandName inputHash' response) f"

text \<open>
  A codec for concrete runs: a response is written as its own JSON text, so
  \<open>stringify\<close> and \<open>parse\<close> are the identity on texts. Two lock environments for concrete
  runs: no other process holds the lock, and the lock file cannot be created.
\<close>

definition text_codec :: "string json_codec" where
  "text_codec = \<lparr>stringify = Inr, parse = Some\<rparr>"

definition free_lock :: lock_env where
  "free_lock = \<lparr>attempt = (\<lambda>i. Created), jitter = (\<lambda>i. 0)\<rparr>"

definition unwritable_lock :: lock_env where
  "unwritable_lock = \<lparr>attempt = (\<lambda>i. Failed), jitter = (\<lambda>i. 0)\<rparr>"

section \<open>Mutation coordinator (commands/mutation.ts, the source part_004)\<close>

text \<open>
  \<open>hashObject\<close> (utils/json.js) is not among the sources. Its two uses are parameters:
  \<open>hashShape q\<close> is \<open>hashObject(requestShape)\<close> and \<open>hashCommandShape c q\<close> is
  \<open>hashObject({ commandName, requestShape })\<close>.
\<close>

record 'q hash_lib =
  hashShape :: "'q \<Rightarrow> string"
  hashCommandShape :: "string \<Rightarrow> 'q \<Rightarrow> string"

definition digit_char :: "nat \<Rightarrow> char" where
  "digit_char d = char_of (48 + d)"

fun decimal :: "nat \<Rightarrow> string" where
  "decimal n = (if n < 10 then [digit_char n] else decimal (n div 10) @ [digit_char (n mod 10)])"

definition show_int :: "int \<Rightarrow> string" where
  "show_int i = (if i < 0 then CHR ''-'' # decimal (nat (- i)) else decimal (nat i))"

definition buildInternalIdempotencyKey :: "'q hash_lib \<Rightarrow> string \<Rightarrow> 'q \<Rightarrow> int \<Rightarrow> string" where
  "buildInternalIdempotencyKey H commandName' requestShape' now =
     (let bucket = now div 120000;
          digest = hashCommandShape H commandName' requestShape'
      in commandName' @ '':'' @ show_int bucket @ '':'' @ digest)"

text \<open>
  The audit event passed to \<open>safeAppendAuditLog\<close>; a flag is \<open>None\<close> where the event
  omits the field. \<open>entity\<close>, \<open>request_id\<close>, \<open>target_ids\<close> and \<open>timestamp\<close> are copied
  from the arguments and the clock and are left out.
\<close>

record audit_event =
  a_command :: string
  a_idempotency_key :: string
  a_ok :: bool
  a_recovery_attempted :: "bool option"
  a_recovery_succeeded :: "bool option"
  a_idempotency_persist_degraded :: "bool option"
  a_outcome_uncertain :: "bool option"

text \<open>
  Everything outside the function: the store's file, the wall clock (milliseconds), the
  remote service, the audit log, and two counters of how often the callbacks have been
  invoked. The model is of one process at a time: between two steps of the coordinator
  nothing else writes the file.
\<close>

record 'w world =
  store :: store_file
  clock :: int
  remote :: 'w
  audit_log :: "audit_event list"
  run_calls :: nat
  recover_calls :: nat

text \<open>
  A callback acts on the remote service and takes some time (milliseconds); \<open>recover\<close>
  resolves to an outcome or to \<open>null\<close> (\<open>None\<close>).
\<close>

record ('q, 'r, 'w) mutation_args =
  commandName :: string
  requestShape :: 'q
  run :: "'w \<Rightarrow> (thrown + 'r) \<times> 'w \<times> nat"
  recover :: "('w \<Rightarrow> (thrown + 'r option) \<times> 'w \<times> nat) option"
  isAmbiguousError :: "(thrown \<Rightarrow> bool) option"

definition safeAppendAuditLog :: "audit_event \<Rightarrow> 'w world \<Rightarrow> 'w world" where
  "safeAppendAuditLog event s = s\<lparr>audit_log := audit_log s @ [event]\<rparr>"

definition isAmbiguousMutationError :: "thrown \<Rightarrow> (thrown \<Rightarrow> bool) option \<Rightarrow> bool" where
  "isAmbiguousMutationError error override =
     (case override of
        Some ov \<Rightarrow> ov error
      | None \<Rightarrow>
          if is_cli_error error \<and> err_code error = Some ''retryable_upstream'' then True
          else if (case err_status error of Some st \<Rightarrow> st = 429 \<or> st \<ge> 500 | None \<Rightarrow> False)
          then True
          else err_code error = Some ''internal_error'')"

definition in_progress_error :: thrown where
  "in_progress_error =
     CliError ''retryable_upstream''
       ''A matching mutation is already in progress. Retry this request shortly.'' True"

definition key_conflict_error :: thrown where
  "key_conflict_error =
     CliError ''idempotency_key_conflict'' ''Internal idempotency key collision.'' False"

definition unconfirmed_error :: thrown where
  "unconfirmed_error =
     CliError ''retryable_upstream''
       ''Mutation outcome could not be confirmed. Re-read before retrying.'' True"

text \<open>
  The inner polling loop \<open>while (Date.now() < deadline)\<close>: sleep 50 ms, look the key up,
  go on while it is pending. \<open>Some l\<close> is \<open>resolved = true\<close> with \<open>lookup = l\<close>; \<open>None\<close> is
  the deadline reached. The sleep is taken to last its 50 ms and a store operation no
  time, so the clock advances by 50 per round and the loop ends.
\<close>

function poll ::
  "'r json_codec \<Rightarrow> string \<Rightarrow> string \<Rightarrow> string \<Rightarrow> int \<Rightarrow> 'w world
     \<Rightarrow> (thrown + 'r IdempotencyReservation option) \<times> 'w world" where
  "poll J idempotencyKey cmd requestHash deadline s =
     (if clock s < deadline then
        (let s1 = s\<lparr>clock := clock s + 50\<rparr>;
             current = lookup J idempotencyKey cmd requestHash (clock s1) (store s1);
             s2 = s1\<lparr>store := snd current\<rparr>
         in case fst current of
              Inl e \<Rightarrow> (Inl e, s2)
            | Inr PendingL \<Rightarrow> poll J idempotencyKey cmd requestHash deadline s2
            | Inr Miss \<Rightarrow>
                (let again = reserve J idempotencyKey cmd requestHash (clock s2) (store s2);
                     s3 = s2\<lparr>store := snd again\<rparr>
                 in case fst again of
                      Inl e \<Rightarrow> (Inl e, s3)
                    | Inr l \<Rightarrow> (Inr (Some l), s3))
            | Inr (ReplayL r) \<Rightarrow> (Inr (Some (ReplayR r)), s2)
            | Inr (ConflictL h) \<Rightarrow> (Inr (Some (ConflictR h)), s2))
      else (Inr None, s))"
  by pat_completeness auto

termination
  by (relation "measure (\<lambda>(J, k, c, h, deadline, s). nat (deadline - clock s))") auto

declare poll.simps [simp del]

text \<open>
  The reservation and the outer \<open>while (lookup.kind === "pending")\<close>, whose body runs
  at most once: it ends by \<open>break\<close>, by the in-progress error, or with a lookup that is
  no longer pending.
\<close>

definition acquire ::
  "'r json_codec \<Rightarrow> string \<Rightarrow> string \<Rightarrow> string \<Rightarrow> 'w world
     \<Rightarrow> (thrown + 'r IdempotencyReservation) \<times> 'w world" where
  "acquire J idempotencyKey cmd requestHash s =
     (let first = reserve J idempotencyKey cmd requestHash (clock s) (store s);
          s0 = s\<lparr>store := snd first\<rparr>
      in case fst first of
           Inl e \<Rightarrow> (Inl e, s0)
         | Inr PendingR \<Rightarrow>
             (case poll J idempotencyKey cmd requestHash (clock s0 + 15000) s0 of
                (Inl e, s1) \<Rightarrow> (Inl e, s1)
              | (Inr (Some l), s1) \<Rightarrow> (Inr l, s1)
              | (Inr None, s1) \<Rightarrow>
                  (let last = reserve J idempotencyKey cmd requestHash (clock s1) (store s1);
                       s2 = s1\<lparr>store := snd last\<rparr>
                   in case fst last of
                        Inl e \<Rightarrow> (Inl e, s2)
                      | Inr PendingR \<Rightarrow> (Inl in_progress_error, s2)
                      | Inr l \<Rightarrow> (Inr l, s2)))
         | Inr l \<Rightarrow> (Inr l, s0))"

text \<open>
  The outer \<open>catch\<close>: release the reservation when it is owned, write the failure audit
  event, rethrow.
\<close>

definition fail ::
  "bool \<Rightarrow> string \<Rightarrow> string \<Rightarrow> string \<Rightarrow> bool \<Rightarrow> bool \<Rightarrow> thrown \<Rightarrow> 'w world
     \<Rightarrow> (thrown + 'r) \<times> 'w world" where
  "fail ownsReservation idempotencyKey cmd requestHash recoveryAttempted outcomeUncertain
        error s =
     (let s1 = (if ownsReservation
                then s\<lparr>store := release idempotencyKey cmd requestHash (clock s) (store s)\<rparr>
                else s)
      in (Inl error,
          safeAppendAuditLog
            \<lparr>a_command = cmd, a_idempotency_key = idempotencyKey, a_ok = False,
             a_recovery_attempted = Some recoveryAttempted,
             a_recovery_succeeded = Some False,
             a_idempotency_persist_degraded = Some False,
             a_outcome_uncertain = Some outcomeUncertain\<rparr> s1))"

text \<open>
  The end of the \<open>try\<close> block once an outcome is in hand: \<open>complete\<close> (a failure is
  swallowed and only marks the audit event), audit, return.
\<close>

definition finish ::
  "'r json_codec \<Rightarrow> string \<Rightarrow> string \<Rightarrow> string \<Rightarrow> bool \<Rightarrow> bool \<Rightarrow> 'r \<Rightarrow> 'w world
     \<Rightarrow> (thrown + 'r) \<times> 'w world" where
  "finish J idempotencyKey cmd requestHash recoveryAttempted recoverySucceeded response s =
     (let done = complete J idempotencyKey cmd requestHash response (clock s) (store s);
          idempotencyPersistDegraded = (case fst done of Inl _ \<Rightarrow> True | Inr _ \<Rightarrow> False);
          s1 = s\<lparr>store := snd done\<rparr>
      in (Inr response,
          safeAppendAuditLog
            \<lparr>a_command = cmd, a_idempotency_key = idempotencyKey, a_ok = True,
             a_recovery_attempted = Some recoveryAttempted,
             a_recovery_succeeded = Some recoverySucceeded,
             a_idempotency_persist_degraded = Some idempotencyPersistDegraded,
             a_outcome_uncertain = Some False\<rparr> s1))"

text \<open>The part after \<open>ownsReservation = true\<close>: run, classify, recover.\<close>

definition owned ::
  "'r json_codec \<Rightarrow> string \<Rightarrow> string \<Rightarrow> ('q, 'r, 'w) mutation_args \<Rightarrow> 'w world
     \<Rightarrow> (thrown + 'r) \<times> 'w world" where
  "owned J idempotencyKey requestHash args s =
     (let cmd = commandName args;
          (ran, w1, d1) = run args (remote s);
          s1 = s\<lparr>remote := w1, clock := clock s + int d1, run_calls := Suc (run_calls s)\<rparr>
      in case ran of
           Inr response \<Rightarrow> finish J idempotencyKey cmd requestHash False False response s1
         | Inl error \<Rightarrow>
             if \<not> isAmbiguousMutationError error (isAmbiguousError args)
             then fail True idempotencyKey cmd requestHash False False error s1
             else
               (case recover args of
                  None \<Rightarrow> fail True idempotencyKey cmd requestHash True True unconfirmed_error s1
                | Some rec \<Rightarrow>
                    (let (recd, w2, d2) = rec (remote s1);
                         s2 = s1\<lparr>remote := w2, clock := clock s1 + int d2,
                                 recover_calls := Suc (recover_calls s1)\<rparr>
                     in case recd of
                          Inr (Some recovered) \<Rightarrow>
                            finish J idempotencyKey cmd requestHash True True recovered s2
                        | Inr None \<Rightarrow>
                            fail True idempotencyKey cmd requestHash True True
                              unconfirmed_error s2
                        | Inl _ \<Rightarrow>
                            fail True idempotencyKey cmd requestHash True True
                              unconfirmed_error s2)))"

definition executeMutationWithIdempotency ::
  "'r json_codec \<Rightarrow> 'q hash_lib \<Rightarrow> ('q, 'r, 'w) mutation_args \<Rightarrow> 'w world
     \<Rightarrow> (thrown + 'r) \<times> 'w world" where
  "executeMutationWithIdempotency J H args s =
     (let cmd = commandName args;
          requestHash = hashShape H (requestShape args);
          idempotencyKey = buildInternalIdempotencyKey H cmd (requestShape args) (clock s)
      in case acquire J idempotencyKey cmd requestHash s of
           (Inl e, s1) \<Rightarrow> fail False idempotencyKey cmd requestHash False False e s1
         | (Inr (ConflictR storedHash), s1) \<Rightarrow>
             fail False idempotencyKey cmd requestHash False False key_conflict_error s1
         | (Inr (ReplayR r), s1) \<Rightarrow>
             (Inr r,
              safeAppendAuditLog
                \<lparr>a_command = cmd, a_idempotency_key = idempotencyKey, a_ok = True,
                 a_recovery_attempted = None, a_recovery_succeeded = None,
                 a_idempotency_persist_degraded = None, a_outcome_uncertain = None\<rparr> s1)
         | (Inr _, s1) \<Rightarrow> owned J idempotencyKey requestHash args s1)"

subsection \<open>Auxiliary notions for the properties of the coordinator\<close>

text \<open>The entry \<open>reserve\<close> writes: hash \<open>h\<close>, the PENDING sentinel, created at \<open>t\<close>.\<close>

definition pending_entry :: "string \<Rightarrow> int \<Rightarrow> StoreEntry" where
  "pending_entry h t = \<lparr>inputHash = h, responseJson = PENDING_RESPONSE_JSON, createdAt = t\<rparr>"

text \<open>
  From \<open>s\<close> to \<open>s1\<close> only the store file and the clock moved: no callback ran and no
  audit event was written.
\<close>

definition store_only :: "'w world \<Rightarrow> 'w world \<Rightarrow> bool" where
  "store_only s s1 =
     (clock s \<le> clock s1 \<and> remote s1 = remote s \<and> run_calls s1 = run_calls s \<and>
      recover_calls s1 = recover_calls s \<and> audit_log s1 = audit_log s)"

text \<open>
  What the reservation phase guarantees when it ends in \<open>s1\<close> with the answer \<open>x\<close>: the
  entry under the key is the one stored at the start or the PENDING entry just written;
  execute means the PENDING entry is in the file, replay means a live terminal entry with
  the request's hash that parses to the replayed outcome; the answer is never pending.
\<close>

definition poll_post ::
  "'r json_codec \<Rightarrow> string \<Rightarrow> string \<Rightarrow> 'w world \<Rightarrow> (thrown + 'r IdempotencyReservation) \<Rightarrow> 'w world \<Rightarrow> bool" where
  "poll_post J ck h s x s1 =
     (store_only s s1
    \<and> (\<forall>e. stored (store s1) ck = Some e \<longrightarrow>
            stored (store s) ck = Some e \<or> e = pending_entry h (clock s1))
    \<and> (x = Inr Execute \<longrightarrow> stored (store s1) ck = Some (pending_entry h (clock s1)))
    \<and> (\<forall>r. x = Inr (ReplayR r) \<longrightarrow>
          (\<exists>e. stored (store s1) ck = Some e \<and> inputHash e = h \<and>
               responseJson e \<noteq> PENDING_RESPONSE_JSON \<and> parse J (responseJson e) = Some r \<and>
               clock s1 - createdAt e \<le> PRUNE_TTL_MS))
    \<and> x \<noteq> Inr PendingR)"

text \<open>A hash for concrete runs: request shapes are texts and hash to themselves.\<close>

definition plain_hash :: "string hash_lib" where
  "plain_hash = \<lparr>hashShape = (\<lambda>q. q), hashCommandShape = (\<lambda>c q. c @ ''/'' @ q)\<rparr>"

text \<open>The composite key under which a request made at time \<open>now\<close> is stored.\<close>

definition request_key :: "'q hash_lib \<Rightarrow> ('q, 'r, 'w) mutation_args \<Rightarrow> int \<Rightarrow> string" where
  "request_key H args now =
     compositeKey (buildInternalIdempotencyKey H (commandName args) (requestShape args) now)
       (commandName args)"

text \<open>
  Concrete runs: an empty store at time 1000, a remote service that counts the writes
  applied to it, a run that succeeds, one that is rejected (not ambiguous), and one that
  fails with status 500 while recovery resolves to \<open>null\<close>.
\<close>

definition world0 :: "nat world" where
  "world0 = \<lparr>store = Missing, clock = 1000, remote = 0, audit_log = [], run_calls = 0,
     recover_calls = 0\<rparr>"



definition args_ambiguous :: "(string, string, nat) mutation_args" where
  "args_ambiguous =
     \<lparr>commandName = ''blocks.delete'', requestShape = ''b1'',
      run = (\<lambda>w. (Inl \<lparr>is_cli_error = False, err_code = None, err_status = Some 500,
                          err_message = ''Internal Server Error'', err_retryable = False\<rparr>,
                  Suc w, 20)),
      recover = Some (\<lambda>w. (Inr None, w, 5)), isAmbiguousError = None\<rparr>"

section \<open>Block tree flattener, selectors and range replacement (notion/repository.ts, the source part_006)\<close>

subsection \<open>Remote blocks and the client adapter\<close>

text \<open>
  A block as the remote service returns it, reduced to what the program reads:
  \<open>id\<close>, \<open>type\<close> and \<open>last_edited_time\<close> when they are strings, \<open>has_children === true\<close>,
  and the \<open>rich_text\<close> array of the block's typed data (\<open>None\<close> when the typed data is
  not an object or has no array there), each item with its \<open>plain_text\<close> when that is a
  string.
\<close>

record raw_block =
  raw_id :: "string option"
  raw_type :: "string option"
  raw_rich_text :: "string option list option"
  raw_has_children :: bool
  raw_last_edited_time :: "string option"

definition extractBlockText :: "raw_block \<Rightarrow> string option" where
  "extractBlockText block =
     (case raw_type block of
        None \<Rightarrow> None
      | Some _ \<Rightarrow>
          (case raw_rich_text block of
             None \<Rightarrow> None
           | Some richText \<Rightarrow>
               Some (concat (map (\<lambda>item. case item of Some plain \<Rightarrow> plain | None \<Rightarrow> []) richText))))"

text \<open>
  One page of \<open>listBlockChildren\<close>; a result that is not an object is \<open>None\<close>.
\<close>

record list_response =
  results :: "raw_block option list"
  has_more :: bool
  next_cursor :: "string option"

datatype BlockInsertPosition = PositionStart | PositionEnd | AfterBlock string

text \<open>A block to insert; the program reads only its \<open>type\<close>.\<close>

record new_block =
  nb_type :: "string option"

text \<open>
  The client adapter over a remote service of state \<open>'w\<close>. Every call may change the
  service (other actors edit it between calls) and may throw.
  \<open>listBlockChildren block_id start_cursor\<close> has \<open>page_size = 100\<close>;
  \<open>appendBlockChildren block_id children position\<close> answers with the ids of its results
  (\<open>None\<close> for a result without a string id).
\<close>

record 'w NotionClientAdapter =
  listBlockChildren :: "string \<Rightarrow> string option \<Rightarrow> 'w \<Rightarrow> (thrown + list_response) \<times> 'w"
  appendBlockChildren ::
    "string \<Rightarrow> new_block list \<Rightarrow> BlockInsertPosition \<Rightarrow> 'w \<Rightarrow> (thrown + string option list) \<times> 'w"
  deleteBlock :: "string \<Rightarrow> 'w \<Rightarrow> (thrown + unit) \<times> 'w"

text \<open>The remote service together with the log of the calls made to it.\<close>

datatype remote_call =
  ListChildren string "string option"
| AppendChildren string "new_block list" BlockInsertPosition
| DeleteBlock string

record 'w remote_state =
  service :: 'w
  calls :: "remote_call list"

definition call_list ::
  "'w NotionClientAdapter \<Rightarrow> string \<Rightarrow> string option \<Rightarrow> 'w remote_state
     \<Rightarrow> (thrown + list_response) \<times> 'w remote_state" where
  "call_list notion block_id cursor r =
     (let res = listBlockChildren notion block_id cursor (service r)
      in (fst res, \<lparr>service = snd res, calls = calls r @ [ListChildren block_id cursor]\<rparr>))"

definition call_append ::
  "'w NotionClientAdapter \<Rightarrow> string \<Rightarrow> new_block list \<Rightarrow> BlockInsertPosition \<Rightarrow> 'w remote_state
     \<Rightarrow> (thrown + string option list) \<times> 'w remote_state" where
  "call_append notion block_id children position r =
     (let res = appendBlockChildren notion block_id children position (service r)
      in (fst res,
          \<lparr>service = snd res, calls = calls r @ [AppendChildren block_id children position]\<rparr>))"

definition call_delete ::
  "'w NotionClientAdapter \<Rightarrow> string \<Rightarrow> 'w remote_state \<Rightarrow> (thrown + unit) \<times> 'w remote_state" where
  "call_delete notion block_id r =
     (let res = deleteBlock notion block_id (service r)
      in (fst res, \<lparr>service = snd res, calls = calls r @ [DeleteBlock block_id]\<rparr>))"

subsection \<open>Flat blocks and selectors\<close>

record FlatBlock =
  block_id :: string
  parent_id :: string
  block_type :: "string option"
  block_text :: string
  has_children :: bool
  last_edited_time :: "string option"
  sibling_index :: nat
  order_index :: nat

text \<open>
  A selector as parsed from JSON: \<open>where.type\<close>, \<open>where.text_contains\<close>,
  \<open>where.parent_id\<close>, \<open>nth\<close> (an integer) and \<open>from\<close> (any string).
\<close>

record BlockSelector =
  where_type :: "string option"
  where_text_contains :: "string option"
  where_parent_id :: "string option"
  nth_raw :: "int option"
  from_raw :: "string option"

datatype from_side = FromStart | FromEnd

record normal_selector =
  n_type :: "string option"
  n_text_contains :: "string option"
  n_parent_id :: "string option"
  n_from :: from_side
  n_nth :: "int option"

definition normalizeSelector :: "BlockSelector \<Rightarrow> string \<Rightarrow> thrown + normal_selector" where
  "normalizeSelector raw label =
     (case (case from_raw raw of
              None \<Rightarrow> Some FromStart
            | Some f \<Rightarrow> if f = ''start'' then Some FromStart
                        else if f = ''end'' then Some FromEnd else None) of
        None \<Rightarrow> Inl (CliError ''invalid_input'' (label @ ''.from must be either start or end.'') False)
      | Some side \<Rightarrow>
          if (case nth_raw raw of Some n \<Rightarrow> n < 1 | None \<Rightarrow> False)
          then Inl (CliError ''invalid_input''
                      (label @ ''.nth must be a positive integer when provided.'') False)
          else Inr \<lparr>n_type = where_type raw, n_text_contains = where_text_contains raw,
                    n_parent_id = where_parent_id raw, n_from = side, n_nth = nth_raw raw\<rparr>)"

text \<open>
  \<open>String.prototype.toLowerCase\<close> belongs to the runtime, which folds every cased
  letter of Unicode; like the JSON codec it is a parameter of the model.
  \<open>String.prototype.includes\<close> is the search for a contiguous occurrence.
\<close>

record string_lib =
  toLowerCase :: "string \<Rightarrow> string"

fun starts_with :: "string \<Rightarrow> string \<Rightarrow> bool" where
  "starts_with hay [] = True"
| "starts_with [] (n # ns) = False"
| "starts_with (h # hs) (n # ns) = (h = n \<and> starts_with hs ns)"

fun string_includes :: "string \<Rightarrow> string \<Rightarrow> bool" where
  "string_includes [] needle = (needle = [])"
| "string_includes (h # hs) needle = (starts_with (h # hs) needle \<or> string_includes hs needle)"

definition matchesSelector :: "string_lib \<Rightarrow> FlatBlock \<Rightarrow> normal_selector \<Rightarrow> bool" where
  "matchesSelector S block selector =
     (if (case n_type selector of
            Some t \<Rightarrow> t \<noteq> [] \<and> block_type block \<noteq> Some t | None \<Rightarrow> False) then False
      else if (case n_parent_id selector of
                 Some p \<Rightarrow> p \<noteq> [] \<and> parent_id block \<noteq> p | None \<Rightarrow> False) then False
      else if (case n_text_contains selector of
                 Some needle \<Rightarrow>
                   needle \<noteq> [] \<and>
                   \<not> string_includes (toLowerCase S (block_text block)) (toLowerCase S needle)
               | None \<Rightarrow> False) then False
      else True)"

record strict_resolution =
  res_selected :: FlatBlock
  res_matches :: "FlatBlock list"
  res_selector :: normal_selector

text \<open>
  The index \<open>nth\<close> selects: \<open>nth - 1\<close> from the start, \<open>matches.length - nth\<close> from the
  end.
\<close>

definition nth_index :: "normal_selector \<Rightarrow> int \<Rightarrow> nat \<Rightarrow> int" where
  "nth_index selector n len = (if n_from selector = FromStart then n - 1 else int len - n)"

definition resolveSelectorStrict ::
  "string_lib \<Rightarrow> FlatBlock list \<Rightarrow> BlockSelector \<Rightarrow> string \<Rightarrow> thrown + strict_resolution" where
  "resolveSelectorStrict S blocks selectorRaw label =
     (case normalizeSelector selectorRaw label of
        Inl e \<Rightarrow> Inl e
      | Inr selector \<Rightarrow>
          (let matches = filter (\<lambda>block. matchesSelector S block selector) blocks in
           if length matches = 0
           then Inl (CliError ''not_found'' (label @ '' matched no blocks.'') False)
           else
             (case n_nth selector of
                None \<Rightarrow>
                  if length matches > 1
                  then Inl (CliError ''conflict''
                         (label @ '' matched '' @ decimal (length matches) @
                          '' blocks. Provide nth and/or where.parent_id to disambiguate.'') False)
                  else Inr \<lparr>res_selected = matches ! 0, res_matches = matches, res_selector = selector\<rparr>
              | Some n \<Rightarrow>
                  (let index = nth_index selector n (length matches) in
                   if index < 0 \<or> index \<ge> int (length matches)
                   then Inl (CliError ''not_found''
                          (label @ '' nth='' @ show_int n @ '' is out of range for '' @
                           decimal (length matches) @ '' matches.'') False)
                   else Inr \<lparr>res_selected = matches ! nat index, res_matches = matches,
                             res_selector = selector\<rparr>))))"

subsection \<open>Listing and flattening\<close>

text \<open>
  The pagination loop of \<open>listDirectChildren\<close>. The source loops until a page has no
  \<open>has_more\<close> or no cursor, which a service may never grant; the model counts pages down
  from \<open>fuel\<close> and answers \<open>None\<close> when they run out.
\<close>

fun listDirectChildren_loop ::
  "nat \<Rightarrow> 'w NotionClientAdapter \<Rightarrow> string \<Rightarrow> string option \<Rightarrow> raw_block list
     \<Rightarrow> 'w remote_state \<Rightarrow> ((thrown + raw_block list) \<times> 'w remote_state) option" where
  "listDirectChildren_loop 0 notion parentId cursor items r = None"
| "listDirectChildren_loop (Suc fuel) notion parentId cursor items r =
     (case call_list notion parentId cursor r of
        (Inl e, r1) \<Rightarrow> Some (Inl e, r1)
      | (Inr response, r1) \<Rightarrow>
          (let items1 = items @ concat (map (\<lambda>raw. case raw of Some b \<Rightarrow> [b] | None \<Rightarrow> [])
                                          (results response))
           in if \<not> has_more response
                 \<or> (case next_cursor response of None \<Rightarrow> True | Some c \<Rightarrow> c = [])
              then Some (Inr items1, r1)
              else listDirectChildren_loop fuel notion parentId (next_cursor response) items1 r1))"

definition listDirectChildren ::
  "nat \<Rightarrow> 'w NotionClientAdapter \<Rightarrow> string \<Rightarrow> 'w remote_state
     \<Rightarrow> ((thrown + raw_block list) \<times> 'w remote_state) option" where
  "listDirectChildren fuel notion parentId r =
     listDirectChildren_loop fuel notion parentId None [] r"

definition scan_limit_error :: "nat \<Rightarrow> thrown" where
  "scan_limit_error maxBlocks =
     CliError ''invalid_input''
       (''Selection scan exceeded max blocks ('' @ decimal maxBlocks @
        ''). Increase scan_max_blocks.'') False"

definition toFlatBlock :: "string \<Rightarrow> string \<Rightarrow> raw_block \<Rightarrow> nat \<Rightarrow> nat \<Rightarrow> FlatBlock" where
  "toFlatBlock ident parentId block siblingIndex orderIndex =
     \<lparr>block_id = ident, parent_id = parentId, block_type = raw_type block,
      block_text = (case extractBlockText block of Some t \<Rightarrow> t | None \<Rightarrow> []),
      has_children = raw_has_children block,
      last_edited_time = raw_last_edited_time block,
      sibling_index = siblingIndex, order_index = orderIndex\<rparr>"

text \<open>
  The first loop of \<open>walk\<close>, over \<open>siblingsRaw.entries()\<close>: a block without an id is
  skipped, the scan limit is checked, the flat block is pushed to \<open>blocks\<close> and to
  \<open>siblings\<close>.
\<close>

fun push_siblings ::
  "nat \<Rightarrow> string \<Rightarrow> (nat \<times> raw_block) list \<Rightarrow> FlatBlock list \<Rightarrow> FlatBlock list
     \<Rightarrow> thrown + FlatBlock list \<times> FlatBlock list" where
  "push_siblings maxBlocks parentId [] blocks siblings = Inr (blocks, siblings)"
| "push_siblings maxBlocks parentId ((siblingIndex, block) # rest) blocks siblings =
     (case raw_id block of
        None \<Rightarrow> push_siblings maxBlocks parentId rest blocks siblings
      | Some ident \<Rightarrow>
          if ident = [] then push_siblings maxBlocks parentId rest blocks siblings
          else if length blocks \<ge> maxBlocks then Inl (scan_limit_error maxBlocks)
          else
            (let flat = toFlatBlock ident parentId block siblingIndex (length blocks)
             in push_siblings maxBlocks parentId rest (blocks @ [flat]) (siblings @ [flat])))"

definition entries :: "'a list \<Rightarrow> (nat \<times> 'a) list" where
  "entries xs = zip [0..<length xs] xs"

text \<open>
  \<open>siblingsByParent\<close> is the \<open>Map\<close> as the list of its \<open>set\<close> calls, latest first;
  \<open>get\<close> is \<open>map_of\<close>, which finds the latest entry of a key.
\<close>

record flattened =
  blocks :: "FlatBlock list"
  siblingsByParent :: "(string \<times> FlatBlock list) list"

text \<open>
  \<open>walk\<close> lists the direct children of \<open>parentId\<close>, pushes all of them, records them in
  \<open>siblingsByParent\<close>, and then walks, in order, into each of them that has children
  (\<open>walk_children\<close> is that second loop). The recursion is as deep as the tree the
  service describes; \<open>fuel\<close> bounds the depth and the pages of each listing.
\<close>

fun walk ::
  "nat \<Rightarrow> 'w NotionClientAdapter \<Rightarrow> nat \<Rightarrow> string \<Rightarrow> flattened \<Rightarrow> 'w remote_state
     \<Rightarrow> ((thrown + flattened) \<times> 'w remote_state) option"
and walk_children ::
  "nat \<Rightarrow> 'w NotionClientAdapter \<Rightarrow> nat \<Rightarrow> FlatBlock list \<Rightarrow> flattened \<Rightarrow> 'w remote_state
     \<Rightarrow> ((thrown + flattened) \<times> 'w remote_state) option" where
  "walk 0 notion maxBlocks parentId acc r = None"
| "walk (Suc fuel) notion maxBlocks parentId acc r =
     (case listDirectChildren fuel notion parentId r of
        None \<Rightarrow> None
      | Some (Inl e, r1) \<Rightarrow> Some (Inl e, r1)
      | Some (Inr siblingsRaw, r1) \<Rightarrow>
          (case push_siblings maxBlocks parentId (entries siblingsRaw) (blocks acc) [] of
             Inl e \<Rightarrow> Some (Inl e, r1)
           | Inr (blocks1, siblings) \<Rightarrow>
               walk_children fuel notion maxBlocks siblings
                 \<lparr>blocks = blocks1,
                  siblingsByParent = (parentId, siblings) # siblingsByParent acc\<rparr> r1))"
| "walk_children fuel notion maxBlocks [] acc r = Some (Inr acc, r)"
| "walk_children fuel notion maxBlocks (sibling # rest) acc r =
     (if has_children sibling
      then (case walk fuel notion maxBlocks (block_id sibling) acc r of
              None \<Rightarrow> None
            | Some (Inl e, r1) \<Rightarrow> Some (Inl e, r1)
            | Some (Inr acc1, r1) \<Rightarrow> walk_children fuel notion maxBlocks rest acc1 r1)
      else walk_children fuel notion maxBlocks rest acc r)"

definition flattenScopeBlocks ::
  "nat \<Rightarrow> 'w NotionClientAdapter \<Rightarrow> string \<Rightarrow> nat \<Rightarrow> 'w remote_state
     \<Rightarrow> ((thrown + flattened) \<times> 'w remote_state) option" where
  "flattenScopeBlocks fuel notion scopeId maxBlocks r =
     walk fuel notion maxBlocks scopeId \<lparr>blocks = [], siblingsByParent = []\<rparr> r"

fun join :: "string \<Rightarrow> string list \<Rightarrow> string" where
  "join sep [] = []"
| "join sep [x] = x"
| "join sep (x # y # ys) = x @ sep @ join sep (y # ys)"

definition siblingsFingerprint :: "FlatBlock list \<Rightarrow> string" where
  "siblingsFingerprint siblings =
     join ''|''
       (map (\<lambda>block. block_id block @ '':'' @
               (case last_edited_time block of Some t \<Rightarrow> t | None \<Rightarrow> [])) siblings)"

subsection \<open>Selection\<close>

record selection =
  sel_scope_id :: string
  sel_selector :: normal_selector
  sel_match_count :: nat
  sel_ambiguous :: bool
  sel_selected :: "FlatBlock option"
  sel_matches :: "FlatBlock list"

definition selectBlocks ::
  "string_lib \<Rightarrow> nat \<Rightarrow> 'w NotionClientAdapter \<Rightarrow> string \<Rightarrow> BlockSelector \<Rightarrow> nat
     \<Rightarrow> 'w remote_state \<Rightarrow> ((thrown + selection) \<times> 'w remote_state) option" where
  "selectBlocks S fuel notion scopeId selectorRaw maxBlocks r =
     (case normalizeSelector selectorRaw ''selector-json'' of
        Inl e \<Rightarrow> Some (Inl e, r)
      | Inr selector \<Rightarrow>
          (case flattenScopeBlocks fuel notion scopeId maxBlocks r of
             None \<Rightarrow> None
           | Some (Inl e, r1) \<Rightarrow> Some (Inl e, r1)
           | Some (Inr flat, r1) \<Rightarrow>
               (let matches = filter (\<lambda>block. matchesSelector S block selector) (blocks flat) in
                if length matches = 0
                then Some (Inl (CliError ''not_found'' ''selector-json matched no blocks.'' False), r1)
                else
                  (case n_nth selector of
                     Some n \<Rightarrow>
                       (let index = nth_index selector n (length matches) in
                        if index < 0 \<or> index \<ge> int (length matches)
                        then Some (Inl (CliError ''not_found''
                               (''selector-json nth='' @ show_int n @ '' is out of range for '' @
                                decimal (length matches) @ '' matches.'') False), r1)
                        else Some (Inr \<lparr>sel_scope_id = scopeId, sel_selector = selector,
                                     sel_match_count = length matches, sel_ambiguous = False,
                                     sel_selected = Some (matches ! nat index),
                                     sel_matches = matches\<rparr>, r1))
                   | None \<Rightarrow>
                       if length matches = 1
                       then Some (Inr \<lparr>sel_scope_id = scopeId, sel_selector = selector,
                                    sel_match_count = length matches, sel_ambiguous = False,
                                    sel_selected = Some (matches ! 0),
                                    sel_matches = matches\<rparr>, r1)
                       else Some (Inr \<lparr>sel_scope_id = scopeId, sel_selector = selector,
                                    sel_match_count = length matches, sel_ambiguous = True,
                                    sel_selected = None,
                                    sel_matches = matches\<rparr>, r1)))))"

subsection \<open>Insertion and deletion\<close>

fun chunk :: "'a list \<Rightarrow> nat \<Rightarrow> 'a list list" where
  "chunk items chunkSize =
     (if items = [] \<or> chunkSize = 0 then []
      else take chunkSize items # chunk (drop chunkSize items) chunkSize)"

declare chunk.simps [simp del]

datatype insert_result =
  WouldInsert string BlockInsertPosition nat "string list"
| Inserted string BlockInsertPosition nat "string list"

text \<open>
  The loop of \<open>insertBlocks\<close> over the chunks: append, collect the non-empty string ids
  of the results, and continue after the last of them.
\<close>

fun insert_chunks ::
  "'w NotionClientAdapter \<Rightarrow> string \<Rightarrow> new_block list list \<Rightarrow> BlockInsertPosition
     \<Rightarrow> string list \<Rightarrow> 'w remote_state \<Rightarrow> (thrown + string list) \<times> 'w remote_state" where
  "insert_chunks notion parentId [] currentPosition insertedIds r = (Inr insertedIds, r)"
| "insert_chunks notion parentId (children # rest) currentPosition insertedIds r =
     (case call_append notion parentId children currentPosition r of
        (Inl e, r1) \<Rightarrow> (Inl e, r1)
      | (Inr res, r1) \<Rightarrow>
          (let chunkIds =
                 concat (map (\<lambda>item. case item of
                                        Some i \<Rightarrow> if i \<noteq> [] then [i] else []
                                      | None \<Rightarrow> []) res)
           in insert_chunks notion parentId rest
                (if chunkIds \<noteq> [] then AfterBlock (last chunkIds) else currentPosition)
                (insertedIds @ chunkIds) r1))"

definition block_types :: "new_block list \<Rightarrow> string list" where
  "block_types bs = map (\<lambda>b. case nb_type b of Some t \<Rightarrow> t | None \<Rightarrow> ''unknown'') bs"

definition insertBlocks ::
  "'w NotionClientAdapter \<Rightarrow> string \<Rightarrow> new_block list \<Rightarrow> BlockInsertPosition \<Rightarrow> bool
     \<Rightarrow> 'w remote_state \<Rightarrow> (thrown + insert_result) \<times> 'w remote_state" where
  "insertBlocks notion parentId newBlocks position dry r =
     (if length newBlocks = 0
      then (Inl (CliError ''invalid_input'' ''At least one block is required.'' False), r)
      else if dry
      then (Inr (WouldInsert parentId position (length newBlocks) (block_types newBlocks)), r)
      else
        (case insert_chunks notion parentId (chunk newBlocks 100) position [] r of
           (Inl e, r1) \<Rightarrow> (Inl e, r1)
         | (Inr insertedIds, r1) \<Rightarrow>
             (Inr (Inserted parentId position (length newBlocks) insertedIds), r1)))"

text \<open>The deletion loop of \<open>replaceBlockRange\<close>: one \<open>deleteBlock\<close> per planned block.\<close>

fun delete_each ::
  "'w NotionClientAdapter \<Rightarrow> FlatBlock list \<Rightarrow> 'w remote_state
     \<Rightarrow> (thrown + unit) \<times> 'w remote_state" where
  "delete_each notion [] r = (Inr (), r)"
| "delete_each notion (block # rest) r =
     (case call_delete notion (block_id block) r of
        (Inl e, r1) \<Rightarrow> (Inl e, r1)
      | (Inr u, r1) \<Rightarrow> delete_each notion rest r1)"

record deleted =
  deleted_count :: nat
  deleted_ids :: "string list"

fun deleteBlocks_loop ::
  "'w NotionClientAdapter \<Rightarrow> string list \<Rightarrow> string list \<Rightarrow> 'w remote_state
     \<Rightarrow> (thrown + string list) \<times> 'w remote_state" where
  "deleteBlocks_loop notion [] deletedIds r = (Inr deletedIds, r)"
| "deleteBlocks_loop notion (blockId # rest) deletedIds r =
     (case call_delete notion blockId r of
        (Inl e, r1) \<Rightarrow> (Inl e, r1)
      | (Inr u, r1) \<Rightarrow> deleteBlocks_loop notion rest (deletedIds @ [blockId]) r1)"

definition deleteBlocks ::
  "'w NotionClientAdapter \<Rightarrow> string list \<Rightarrow> 'w remote_state
     \<Rightarrow> (thrown + deleted) \<times> 'w remote_state" where
  "deleteBlocks notion blockIds r =
     (case deleteBlocks_loop notion blockIds [] r of
        (Inl e, r1) \<Rightarrow> (Inl e, r1)
      | (Inr deletedIds, r1) \<Rightarrow>
          (Inr \<lparr>deleted_count = length deletedIds, deleted_ids = deletedIds\<rparr>, r1))"

subsection \<open>Range replacement\<close>

record range_args =
  scopeId :: string
  startSelector :: BlockSelector
  endSelector :: BlockSelector
  newBlocks :: "new_block list"
  inclusiveStart :: bool
  inclusiveEnd :: bool
  dryRun :: bool
  scanMaxBlocks :: nat

record range_plan =
  plan_scope_id :: string
  plan_parent_id :: string
  plan_start :: FlatBlock
  plan_end :: FlatBlock
  inclusive_start :: bool
  inclusive_end :: bool
  delete_ids :: "string list"
  delete_count :: nat
  insert_position :: BlockInsertPosition
  insert_count :: nat

datatype range_result =
  DryRunPlan range_plan "string list"
| Replaced range_plan nat "string list" nat

definition cross_parent_error :: thrown where
  "cross_parent_error =
     CliError ''invalid_input''
       ''start-selector-json and end-selector-json must resolve to siblings under the same parent block.''
       False"

definition start_after_end_error :: thrown where
  "start_after_end_error =
     CliError ''invalid_input''
       ''start-selector-json resolved after end-selector-json within the sibling order.'' False"

definition range_changed_error :: thrown where
  "range_changed_error =
     CliError ''conflict''
       ''Target block range changed during planning. Retry to re-resolve the selection.'' False"

text \<open>
  What JavaScript throws on \<open>siblings[replaceFrom - 1].id\<close> when the index is out of
  range.
\<close>

definition type_error :: thrown where
  "type_error =
     \<lparr>is_cli_error = False, err_code = None, err_status = None,
      err_message = ''TypeError: Cannot read properties of undefined'', err_retryable = False\<rparr>"

text \<open>\<open>Array.prototype.slice(from, to)\<close> for \<open>0 \<le> from\<close>.\<close>

definition slice :: "'a list \<Rightarrow> nat \<Rightarrow> nat \<Rightarrow> 'a list" where
  "slice xs from to = take (to - from) (drop from xs)"

text \<open>
  The planning part of \<open>replaceBlockRange\<close>, from the flattened scope to the plan: both
  selectors resolved, the parent and order checks, the inclusive or exclusive bounds
  \<open>replaceFrom\<close> and \<open>replaceTo\<close> (\<open>replaceTo\<close> is \<open>-1\<close> for an exclusive end at index 0),
  the blocks to delete and the insertion position. It returns the plan, the siblings of
  the parent and the blocks to delete.
\<close>

definition planRange ::
  "string_lib \<Rightarrow> flattened \<Rightarrow> range_args
     \<Rightarrow> thrown + range_plan \<times> FlatBlock list \<times> FlatBlock list" where
  "planRange S flat args =
     (case resolveSelectorStrict S (blocks flat) (startSelector args) ''start-selector-json'' of
        Inl e \<Rightarrow> Inl e
      | Inr start \<Rightarrow>
     (case resolveSelectorStrict S (blocks flat) (endSelector args) ''end-selector-json'' of
        Inl e \<Rightarrow> Inl e
      | Inr end' \<Rightarrow>
     (let startBlock = res_selected start;
          endBlock = res_selected end'
      in if parent_id startBlock \<noteq> parent_id endBlock then Inl cross_parent_error
         else
     (let siblings = (case map_of (siblingsByParent flat) (parent_id startBlock) of
                        Some sibs \<Rightarrow> sibs | None \<Rightarrow> [])
      in if sibling_index startBlock > sibling_index endBlock then Inl start_after_end_error
         else
     (let replaceFrom = (if inclusiveStart args then int (sibling_index startBlock)
                         else int (sibling_index startBlock) + 1);
          replaceTo = (if inclusiveEnd args then int (sibling_index endBlock)
                       else int (sibling_index endBlock) - 1);
          blocksToDelete = (if replaceFrom \<le> replaceTo
                            then slice siblings (nat replaceFrom) (nat (replaceTo + 1))
                            else [])
      in case (if replaceFrom = 0 then Inr PositionStart
               else if nat (replaceFrom - 1) < length siblings
               then Inr (AfterBlock (block_id (siblings ! nat (replaceFrom - 1))))
               else Inl type_error) of
           Inl e \<Rightarrow> Inl e
         | Inr insertPosition \<Rightarrow>
             Inr (\<lparr>plan_scope_id = scopeId args, plan_parent_id = parent_id startBlock,
                   plan_start = startBlock, plan_end = endBlock,
                   inclusive_start = inclusiveStart args, inclusive_end = inclusiveEnd args,
                   delete_ids = map block_id blocksToDelete,
                   delete_count = length blocksToDelete,
                   insert_position = insertPosition,
                   insert_count = length (newBlocks args)\<rparr>,
                  siblings, blocksToDelete))))))"

text \<open>
  The siblings as re-read before mutating: \<open>currentSiblingsRaw.map(...).filter(...)\<close>,
  with \<open>order_index\<close> set to the sibling index.
\<close>

definition currentSiblingsOf :: "string \<Rightarrow> raw_block list \<Rightarrow> FlatBlock list" where
  "currentSiblingsOf parentId currentSiblingsRaw =
     concat (map (\<lambda>(siblingIndex, block).
                    case raw_id block of
                      None \<Rightarrow> []
                    | Some ident \<Rightarrow>
                        if ident = [] then []
                        else [toFlatBlock ident parentId block siblingIndex siblingIndex])
                 (entries currentSiblingsRaw))"

definition replaceBlockRange ::
  "string_lib \<Rightarrow> nat \<Rightarrow> 'w NotionClientAdapter \<Rightarrow> range_args \<Rightarrow> 'w remote_state
     \<Rightarrow> ((thrown + range_result) \<times> 'w remote_state) option" where
  "replaceBlockRange S fuel notion args r =
     (case flattenScopeBlocks fuel notion (scopeId args) (scanMaxBlocks args) r of
        None \<Rightarrow> None
      | Some (Inl e, r1) \<Rightarrow> Some (Inl e, r1)
      | Some (Inr flat, r1) \<Rightarrow>
     (case planRange S flat args of
        Inl e \<Rightarrow> Some (Inl e, r1)
      | Inr (plan, siblings, blocksToDelete) \<Rightarrow>
          if dryRun args then Some (Inr (DryRunPlan plan (block_types (newBlocks args))), r1)
          else
     (let beforeFingerprint = siblingsFingerprint siblings
      in case listDirectChildren fuel notion (plan_parent_id plan) r1 of
           None \<Rightarrow> None
         | Some (Inl e, r2) \<Rightarrow> Some (Inl e, r2)
         | Some (Inr currentSiblingsRaw, r2) \<Rightarrow>
     (let currentSiblings = currentSiblingsOf (plan_parent_id plan) currentSiblingsRaw;
          currentFingerprint = siblingsFingerprint currentSiblings
      in if beforeFingerprint \<noteq> currentFingerprint then Some (Inl range_changed_error, r2)
         else
     (case (if length (newBlocks args) > 0
            then insertBlocks notion (plan_parent_id plan) (newBlocks args)
                   (insert_position plan) False r2
            else (Inr (Inserted (plan_parent_id plan) (insert_position plan) 0 []), r2)) of
        (Inl e, r3) \<Rightarrow> Some (Inl e, r3)
      | (Inr insertResult, r3) \<Rightarrow>
     (case delete_each notion blocksToDelete r3 of
        (Inl e, r4) \<Rightarrow> Some (Inl e, r4)
      | (Inr u, r4) \<Rightarrow>
          Some (Inr (Replaced plan
                  (case insertResult of
                     Inserted p pos n ids \<Rightarrow> n | WouldInsert p pos n ts \<Rightarrow> 0)
                  (case insertResult of
                     Inserted p pos n ids \<Rightarrow> ids | WouldInsert p pos n ts \<Rightarrow> [])
                  (length blocksToDelete)), r4)))))))"

subsection \<open>A scripted remote service for concrete runs\<close>

text \<open>
  The service answers the \<open>n\<close>-th listing from \<open>tree n\<close> in one page, accepts every
  insertion, and deletes a block unless its id is in \<open>failing\<close>, where it throws a 502.
  Its state counts the listings and keeps the ids deleted so far.
\<close>

record sim =
  listed :: nat
  removed :: "string list"

definition bad_gateway :: thrown where
  "bad_gateway =
     \<lparr>is_cli_error = False, err_code = None, err_status = Some 502,
      err_message = ''Bad Gateway'', err_retryable = False\<rparr>"

definition scripted ::
  "(nat \<Rightarrow> string \<Rightarrow> raw_block list) \<Rightarrow> string list \<Rightarrow> sim NotionClientAdapter" where
  "scripted tree failing =
     \<lparr>listBlockChildren =
        (\<lambda>parent cursor w.
           (Inr \<lparr>results = map Some (tree (listed w) parent), has_more = False,
                 next_cursor = None\<rparr>,
            w\<lparr>listed := Suc (listed w)\<rparr>)),
      appendBlockChildren =
        (\<lambda>parent children position w. (Inr (map (\<lambda>b. Some ''new'') children), w)),
      deleteBlock =
        (\<lambda>ident w. if ident \<in> set failing then (Inl bad_gateway, w)
                    else (Inr (), w\<lparr>removed := removed w @ [ident]\<rparr>))\<rparr>"

text \<open>
  Lower-casing for the concrete runs, whose texts are ASCII: the letters \<open>A\<close> to \<open>Z\<close>
  are folded.
\<close>

definition lower_char :: "char \<Rightarrow> char" where
  "lower_char c =
     (if 65 \<le> (of_char c :: nat) \<and> (of_char c :: nat) \<le> 90
      then char_of ((of_char c :: nat) + 32) else c)"

definition ascii_strings :: string_lib where
  "ascii_strings = \<lparr>toLowerCase = map lower_char\<rparr>"

definition sim0 :: "sim remote_state" where
  "sim0 = \<lparr>service = \<lparr>listed = 0, removed = []\<rparr>, calls = []\<rparr>"

definition para_block :: "string \<Rightarrow> bool \<Rightarrow> string \<Rightarrow> raw_block" where
  "para_block ident kids edited =
     \<lparr>raw_id = Some ident, raw_type = Some ''paragraph'', raw_rich_text = Some [Some ident],
      raw_has_children = kids, raw_last_edited_time = Some edited\<rparr>"

text \<open>A page with the blocks \<open>a\<close> and \<open>b\<close>, where \<open>a\<close> has the child \<open>a1\<close>.\<close>

definition nested_tree :: "nat \<Rightarrow> string \<Rightarrow> raw_block list" where
  "nested_tree n parent =
     (if parent = ''page'' then [para_block ''a'' True ''t0'', para_block ''b'' False ''t0'']
      else if parent = ''a'' then [para_block ''a1'' False ''t0'']
      else [])"

text \<open>A page with the three blocks \<open>a\<close>, \<open>b\<close>, \<open>c\<close>, none with children.\<close>

definition flat_tree :: "nat \<Rightarrow> string \<Rightarrow> raw_block list" where
  "flat_tree n parent =
     (if parent = ''page''
      then [para_block ''a'' False ''t0'', para_block ''b'' False ''t0'',
            para_block ''c'' False ''t0'']
      else [])"

text \<open>The same page, where \<open>b\<close> is edited after the first listing.\<close>

definition edited_tree :: "nat \<Rightarrow> string \<Rightarrow> raw_block list" where
  "edited_tree n parent =
     (if parent = ''page''
      then [para_block ''a'' False ''t0'', para_block ''b'' False (if n = 0 then ''t0'' else ''t1''),
            para_block ''c'' False ''t0'']
      else [])"

text \<open>Selectors and requests for the concrete runs.\<close>

definition by_text :: "string \<Rightarrow> BlockSelector" where
  "by_text t =
     \<lparr>where_type = None, where_text_contains = Some t, where_parent_id = None,
      nth_raw = None, from_raw = None\<rparr>"

definition range_a_c :: range_args where
  "range_a_c =
     \<lparr>scopeId = ''page'', startSelector = by_text ''a'', endSelector = by_text ''c'',
      newBlocks = [\<lparr>nb_type = Some ''paragraph''\<rparr>], inclusiveStart = True,
      inclusiveEnd = True, dryRun = False, scanMaxBlocks = 5000\<rparr>"

subsection \<open>Auxiliary notions for the properties of the block functions\<close>

text \<open>A call that only reads the remote service.\<close>

fun is_list_call :: "remote_call \<Rightarrow> bool" where
  "is_list_call (ListChildren p c) = True"
| "is_list_call (AppendChildren p bs pos) = False"
| "is_list_call (DeleteBlock i) = False"

text \<open>From \<open>r\<close> to \<open>r1\<close> the remote service was only asked to list children.\<close>

definition only_listed :: "'w remote_state \<Rightarrow> 'w remote_state \<Rightarrow> bool" where
  "only_listed r r1 = (\<exists>cs. calls r1 = calls r @ cs \<and> list_all is_list_call cs)"

text \<open>Every block carries its own position in the list as \<open>order_index\<close>.\<close>

definition indexed :: "FlatBlock list \<Rightarrow> bool" where
  "indexed bs = (\<forall>i<length bs. order_index (bs ! i) = i)"

text \<open>A flat block without its \<open>order_index\<close>, to compare sibling lists of two scans.\<close>

definition erase_order :: "FlatBlock \<Rightarrow> FlatBlock" where
  "erase_order b = b\<lparr>order_index := 0\<rparr>"

text \<open>
  \<open>sibs\<close> are the flat blocks of some listing of the children of \<open>p\<close>: the same blocks,
  ids and sibling indexes as \<open>currentSiblingsOf\<close> makes of that listing.
\<close>

definition listed_siblings :: "'w NotionClientAdapter \<Rightarrow> string \<Rightarrow> FlatBlock list \<Rightarrow> bool" where
  "listed_siblings notion p sibs =
     (\<exists>raw f rA rB. listDirectChildren f notion p rA = Some (Inr raw, rB) \<and>
        map erase_order sibs = map erase_order (currentSiblingsOf p raw))"

text \<open>
  The invariant of the walk: the blocks are indexed, and the siblings recorded for a
  parent are a segment of the flattened list and come from a listing of that parent.
\<close>

definition flat_inv :: "'w NotionClientAdapter \<Rightarrow> flattened \<Rightarrow> bool" where
  "flat_inv notion acc =
     (indexed (blocks acc) \<and>
      (\<forall>p sibs. map_of (siblingsByParent acc) p = Some sibs \<longrightarrow>
         (\<exists>pre post. blocks acc = pre @ sibs @ post) \<and> listed_siblings notion p sibs))"

text \<open>
  More selectors and requests for the concrete runs: the fifth match from the end, any
  block (no predicate, no \<open>nth\<close>), the range from \<open>c\<close> back to \<open>a\<close>, and the range that
  starts after \<open>b\<close> and ends with \<open>b\<close>.
\<close>

definition fifth_from_end :: BlockSelector where
  "fifth_from_end =
     \<lparr>where_type = None, where_text_contains = None, where_parent_id = None,
      nth_raw = Some 5, from_raw = Some ''end''\<rparr>"

definition any_block :: BlockSelector where
  "any_block =
     \<lparr>where_type = None, where_text_contains = None, where_parent_id = None,
      nth_raw = None, from_raw = None\<rparr>"

definition range_c_a :: range_args where
  "range_c_a =
     \<lparr>scopeId = ''page'', startSelector = by_text ''c'', endSelector = by_text ''a'',
      newBlocks = [\<lparr>nb_type = Some ''paragraph''\<rparr>], inclusiveStart = True,
      inclusiveEnd = True, dryRun = False, scanMaxBlocks = 5000\<rparr>"

definition range_after_b :: range_args where
  "range_after_b =
     \<lparr>scopeId = ''page'', startSelector = by_text ''b'', endSelector = by_text ''b'',
      newBlocks = [\<lparr>nb_type = Some ''paragraph''\<rparr>], inclusiveStart = False,
      inclusiveEnd = True, dryRun = False, scanMaxBlocks = 5000\<rparr>"

text \<open>
  The values the concrete runs compute: the flattened page \<open>a, b, c\<close>, the flattened
  nested page, the remote state after a number of listings, and the plan for the range
  from \<open>a\<close> to \<open>c\<close>.
\<close>

definition abc_blocks :: "FlatBlock list" where
  "abc_blocks =
     [toFlatBlock ''a'' ''page'' (para_block ''a'' False ''t0'') 0 0,
      toFlatBlock ''b'' ''page'' (para_block ''b'' False ''t0'') 1 1,
      toFlatBlock ''c'' ''page'' (para_block ''c'' False ''t0'') 2 2]"

definition abc_flat :: flattened where
  "abc_flat = \<lparr>blocks = abc_blocks, siblingsByParent = [(''page'', abc_blocks)]\<rparr>"

definition nested_flat :: flattened where
  "nested_flat =
     \<lparr>blocks =
        [toFlatBlock ''a'' ''page'' (para_block ''a'' True ''t0'') 0 0,
         toFlatBlock ''b'' ''page'' (para_block ''b'' False ''t0'') 1 1,
         toFlatBlock ''a1'' ''a'' (para_block ''a1'' False ''t0'') 0 2],
      siblingsByParent =
        [(''a'', [toFlatBlock ''a1'' ''a'' (para_block ''a1'' False ''t0'') 0 2]),
         (''page'',
          [toFlatBlock ''a'' ''page'' (para_block ''a'' True ''t0'') 0 0,
           toFlatBlock ''b'' ''page'' (para_block ''b'' False ''t0'') 1 1])]\<rparr>"

definition after_listings :: "string list \<Rightarrow> sim remote_state" where
  "after_listings ps =
     \<lparr>service = \<lparr>listed = length ps, removed = []\<rparr>,
      calls = map (\<lambda>p. ListChildren p None) ps\<rparr>"

definition plan_a_c :: range_plan where
  "plan_a_c =
     \<lparr>plan_scope_id = ''page'', plan_parent_id = ''page'',
      plan_start = abc_blocks ! 0, plan_end = abc_blocks ! 2,
      inclusive_start = True, inclusive_end = True,
      delete_ids = [''a'', ''b'', ''c''], delete_count = 3,
      insert_position = PositionStart, insert_count = 1\<rparr>"

text \<open>
  The numbering the spec describes for \<open>orderIndex\<close>, written from its words for
  comparison with the flattener: a depth-first pre-order, in which every block is followed
  at once by the blocks of its own subtree. \<open>tree\<close> gives the children of a block;
  \<open>fuel\<close> bounds the depth.
\<close>

fun preorder_spec :: "nat \<Rightarrow> (string \<Rightarrow> raw_block list) \<Rightarrow> string \<Rightarrow> string list" where
  "preorder_spec 0 tree parent = []"
| "preorder_spec (Suc fuel) tree parent =
     concat (map (\<lambda>b. case raw_id b of
                         None \<Rightarrow> []
                       | Some i \<Rightarrow>
                           i # (if raw_has_children b then preorder_spec fuel tree i else []))
                 (tree parent))"

text \<open>The plan for the range that starts after \<open>b\<close> and ends with \<open>b\<close>.\<close>

definition plan_after_b :: range_plan where
  "plan_after_b =
     \<lparr>plan_scope_id = ''page'', plan_parent_id = ''page'',
      plan_start = abc_blocks ! 1, plan_end = abc_blocks ! 1,
      inclusive_start = False, inclusive_end = True,
      delete_ids = [], delete_count = 0,
      insert_position = AfterBlock ''b'', insert_count = 1\<rparr>"

text \<open>
  Notions for the order of the endpoints: a call that appends children; the bounds
  \<open>replaceFrom\<close> and \<open>replaceTo\<close> that \<open>replaceBlockRange\<close> computes from the resolved
  endpoints; and \<open>flattened.siblingsByParent.get(parent) ?? []\<close>.
\<close>

fun is_append_call :: "remote_call \<Rightarrow> bool" where
  "is_append_call (ListChildren p c) = False"
| "is_append_call (AppendChildren p bs pos) = True"
| "is_append_call (DeleteBlock i) = False"

definition adjusted_start :: "range_args \<Rightarrow> FlatBlock \<Rightarrow> int" where
  "adjusted_start args startBlock =
     (if inclusiveStart args then int (sibling_index startBlock)
      else int (sibling_index startBlock) + 1)"

definition adjusted_end :: "range_args \<Rightarrow> FlatBlock \<Rightarrow> int" where
  "adjusted_end args endBlock =
     (if inclusiveEnd args then int (sibling_index endBlock)
      else int (sibling_index endBlock) - 1)"

definition recorded_siblings :: "flattened \<Rightarrow> string \<Rightarrow> FlatBlock list" where
  "recorded_siblings flat p =
     (case map_of (siblingsByParent flat) p of Some sibs \<Rightarrow> sibs | None \<Rightarrow> [])"

text \<open>
  The remote service presents the block tree \<open>tree\<close>: every listing of the children of
  a block that succeeds returns the children the tree gives that block.
\<close>

definition serves :: "'w NotionClientAdapter \<Rightarrow> (string \<Rightarrow> raw_block list) \<Rightarrow> bool" where
  "serves notion tree =
     (\<forall>fuel p r raw r1.
        listDirectChildren fuel notion p r = Some (Inr raw, r1) \<longrightarrow> raw = tree p)"

text \<open>
  The order in which the flattener emits a tree: first all direct children of the
  parent, in listing order, then, for each of these children that has children and in the
  same order, the children of that child laid out in the same way. The blocks are those
  \<open>currentSiblingsOf\<close> makes of a listing (\<open>sibling_index\<close> is the position in the
  listing, blocks without an id are left out); \<open>fuel\<close> bounds the depth as in \<open>walk\<close>.
\<close>

fun siblings_first :: "nat \<Rightarrow> (string \<Rightarrow> raw_block list) \<Rightarrow> string \<Rightarrow> FlatBlock list"
and subtrees_of :: "nat \<Rightarrow> (string \<Rightarrow> raw_block list) \<Rightarrow> FlatBlock list \<Rightarrow> FlatBlock list" where
  "siblings_first 0 tree parentId = []"
| "siblings_first (Suc fuel) tree parentId =
     currentSiblingsOf parentId (tree parentId)
     @ subtrees_of fuel tree (currentSiblingsOf parentId (tree parentId))"
| "subtrees_of fuel tree [] = []"
| "subtrees_of fuel tree (sibling # rest) =
     (if has_children sibling then siblings_first fuel tree (block_id sibling) else [])
     @ subtrees_of fuel tree rest"

section \<open>Properties of the idempotency store\<close>

lemma stored_Some_Json: "stored f k = Some e \<Longrightarrow> \<exists>d. f = Json d \<and> d k = Some e"
  by (cases f) auto

lemma prune_live:
  "d k = Some e \<Longrightarrow> now - createdAt e \<le> PRUNE_TTL_MS \<Longrightarrow> prune now d k = Some e"
  by (simp add: prune_def)

lemma prune_expired:
  "d k = Some e \<Longrightarrow> now - createdAt e > PRUNE_TTL_MS \<Longrightarrow> prune now d k = None"
  by (simp add: prune_def)

lemma prune_upd_expired:
  "d k = Some e \<Longrightarrow> now - createdAt e > PRUNE_TTL_MS \<Longrightarrow>
   prune now (d(k := None)) = prune now d"
  by (rule ext) (simp add: prune_def)

text \<open>
  C6. An entry whose age exceeds the TTL of 180 seconds is invisible: \<open>lookup\<close> returns
  miss and \<open>reserve\<close> returns execute and writes a fresh PENDING entry, and both behave
  exactly as on the file from which the entry has been removed.
\<close>

theorem expired_entry_invisible:
  assumes "stored f (compositeKey k c) = Some e"
    and "now - createdAt e > PRUNE_TTL_MS"
  shows "lookup J k c h now f = (Inr Miss, Json (prune now (stored f)))
       \<and> reserve J k c h now f =
           (Inr Execute,
            Json ((prune now (stored f))(compositeKey k c \<mapsto>
              \<lparr>inputHash = h, responseJson = PENDING_RESPONSE_JSON, createdAt = now\<rparr>)))
       \<and> lookup J k c h now f = lookup J k c h now (Json ((stored f)(compositeKey k c := None)))
       \<and> reserve J k c h now f = reserve J k c h now (Json ((stored f)(compositeKey k c := None)))"
proof -
  from assms(1) obtain d where f: "f = Json d" and d: "d (compositeKey k c) = Some e"
    using stored_Some_Json by blast
  have p: "prune now d (compositeKey k c) = None"
    using d assms(2) by (rule prune_expired)
  have q: "prune now (d(compositeKey k c := None)) = prune now d"
    using d assms(2) by (rule prune_upd_expired)
  show ?thesis
    by (simp add: f lookup_def reserve_def p q)
qed

theorem expired_entry_invisible_witness:
  "lookup text_codec ''k'' ''c'' ''h'' 200000
     (Json [compositeKey ''k'' ''c'' \<mapsto>
        \<lparr>inputHash = ''h'', responseJson = ''1'', createdAt = 0\<rparr>])
   = (Inr Miss,
      Json (prune 200000 [compositeKey ''k'' ''c'' \<mapsto>
        \<lparr>inputHash = ''h'', responseJson = ''1'', createdAt = 0\<rparr>]))
 \<and> fst (reserve text_codec ''k'' ''c'' ''h'' 200000
     (Json [compositeKey ''k'' ''c'' \<mapsto>
        \<lparr>inputHash = ''h'', responseJson = ''1'', createdAt = 0\<rparr>]))
   = Inr Execute"
  using expired_entry_invisible
    [of "Json [compositeKey ''k'' ''c'' \<mapsto>
           \<lparr>inputHash = ''h'', responseJson = ''1'', createdAt = 0\<rparr>]"
        "''k''" "''c''" "\<lparr>inputHash = ''h'', responseJson = ''1'', createdAt = 0\<rparr>"
        200000 text_codec "''h''"]
  by (simp add: PRUNE_TTL_MS_def)

text \<open>
  C5, as the code has it. When the entry stored under the composite key is not older
  than the TTL at the time of the call and its \<open>inputHash\<close> differs from the one passed,
  \<open>complete\<close> throws \<open>internal_error\<close> and the entry (hash, outcome and timestamp) stays
  as it was.
\<close>

theorem complete_mismatch_live:
  assumes "stored f (compositeKey k c) = Some e"
    and "now - createdAt e \<le> PRUNE_TTL_MS"
    and "inputHash e \<noteq> h"
  shows "fst (complete J k c h r now f) = Inl finalize_error
       \<and> err_code finalize_error = Some ''internal_error''
       \<and> stored (snd (complete J k c h r now f)) (compositeKey k c) = Some e"
proof -
  from assms(1) obtain d where f: "f = Json d" and d: "d (compositeKey k c) = Some e"
    using stored_Some_Json by blast
  have p: "prune now d (compositeKey k c) = Some e"
    using d assms(2) by (rule prune_live)
  show ?thesis
    using assms(3) by (simp add: f complete_def p finalize_error_def CliError_def)
qed

theorem complete_mismatch_live_witness:
  "fst (complete text_codec ''k'' ''c'' ''h2'' ''{}'' 1000
     (Json [compositeKey ''k'' ''c'' \<mapsto>
        \<lparr>inputHash = ''h1'', responseJson = ''1'', createdAt = 0\<rparr>]))
   = Inl finalize_error"
  using complete_mismatch_live
    [of "Json [compositeKey ''k'' ''c'' \<mapsto>
           \<lparr>inputHash = ''h1'', responseJson = ''1'', createdAt = 0\<rparr>]"
        "''k''" "''c''" "\<lparr>inputHash = ''h1'', responseJson = ''1'', createdAt = 0\<rparr>"
        1000 "''h2''" text_codec "''{}''"]
  by (simp add: PRUNE_TTL_MS_def)

text \<open>
  C5 as stated fails on a stored entry older than the TTL: at time 200000 the entry
  created at time 0 with hash \<open>h1\<close> is pruned by the load, so \<open>complete\<close> with hash \<open>h2\<close>
  does not throw and writes a new entry under the key.
\<close>

theorem complete_mismatch_expired_counterexample:
  "fst (complete text_codec ''k'' ''c'' ''h2'' ''{}'' 200000
     (Json [compositeKey ''k'' ''c'' \<mapsto>
        \<lparr>inputHash = ''h1'', responseJson = ''1'', createdAt = 0\<rparr>]))
   = Inr ()
 \<and> stored (snd (complete text_codec ''k'' ''c'' ''h2'' ''{}'' 200000
     (Json [compositeKey ''k'' ''c'' \<mapsto>
        \<lparr>inputHash = ''h1'', responseJson = ''1'', createdAt = 0\<rparr>])))
      (compositeKey ''k'' ''c'')
   = Some \<lparr>inputHash = ''h2'', responseJson = ''{}'', createdAt = 200000\<rparr>"
  by (simp add: complete_def prune_def PRUNE_TTL_MS_def text_codec_def Let_def)

lemma acquireLock_throws:
  "acquireLock E deadline i now = Inl x \<Longrightarrow> x = lock_failed_error \<or> x = store_busy_error"
proof (induction E deadline i now rule: acquireLock.induct)
  case (1 E deadline i now)
  show ?case
  proof (cases "now < deadline")
    case False
    then show ?thesis using "1.prems" by (subst (asm) acquireLock.simps) simp
  next
    case True
    show ?thesis
    proof (cases "attempt E i")
      case Created
      then show ?thesis using "1.prems" True by (subst (asm) acquireLock.simps) simp
    next
      case Failed
      then show ?thesis using "1.prems" True by (subst (asm) acquireLock.simps) simp
    next
      case Exists
      then have "acquireLock E deadline (Suc i)
                   (now + (LOCK_POLL_INTERVAL_MS + int (jitter E i mod 20))) = Inl x"
        using "1.prems" True by (subst (asm) acquireLock.simps) simp
      then show ?thesis using "1.IH" [OF True Exists] by blast
    qed
  qed
qed

lemma complete_throws:
  "fst (complete J k c h r now g) = Inl x \<Longrightarrow>
     (x = finalize_error \<and>
      (\<exists>e. stored g (compositeKey k c) = Some e \<and> now - createdAt e \<le> PRUNE_TTL_MS \<and>
           inputHash e \<noteq> h))
   \<or> stringify J r = Inl x"
  by (cases g)
     (auto simp: complete_def prune_def Let_def split: option.splits if_splits sum.splits)

text \<open>
  C10, as the code has it. Let the store lock be acquired, let the load find no entry
  under the composite key (none stored, or one older than the TTL), and let
  \<open>JSON.stringify\<close> serialise the outcome. Then \<open>complete\<close> does not throw and writes an
  entry with the given hash, the serialised outcome and the time at which the lock was
  obtained. If the serialised outcome is not the PENDING sentinel and parses back to the
  outcome, a \<open>lookup\<close> with the same key, command and hash that obtains the lock no later
  than the TTL afterwards replays the outcome. Whatever the state, the errors of
  \<open>complete\<close> are these: the finalisation \<open>internal_error\<close>, thrown with the lock held
  when a live entry with a different hash is stored under the key; the error
  \<open>JSON.stringify\<close> throws for the outcome; and the error of \<open>acquireLock\<close>, which is its
  \<open>internal_error\<close> (the lock could not be acquired) or its \<open>retryable_upstream\<close> (the
  store is busy).
\<close>

theorem complete_absent_then_replay:
  assumes lock: "acquireLock E (t + LOCK_WAIT_TIMEOUT_MS) 0 t = Inr now"
    and absent: "fst (loadDataUnlocked now f) (compositeKey k c) = None"
    and ser: "stringify J r = Inr json"
  shows "fst (locked_complete E J k c h r t f) = Inr ()
       \<and> stored (snd (locked_complete E J k c h r t f)) (compositeKey k c)
           = Some \<lparr>inputHash = h, responseJson = json, createdAt = now\<rparr>
       \<and> (\<forall>E' t' now'.
            json \<noteq> PENDING_RESPONSE_JSON \<and> parse J json = Some r \<and>
            acquireLock E' (t' + LOCK_WAIT_TIMEOUT_MS) 0 t' = Inr now' \<and>
            now' - now \<le> PRUNE_TTL_MS \<longrightarrow>
            fst (locked_lookup E' J k c h t' (snd (locked_complete E J k c h r t f)))
              = Inr (ReplayL r))
       \<and> (\<forall>E0 g h' r' t0 x.
            fst (locked_complete E0 J k c h' r' t0 g) = Inl x \<longrightarrow>
              (\<exists>held e. acquireLock E0 (t0 + LOCK_WAIT_TIMEOUT_MS) 0 t0 = Inr held \<and>
                   stored g (compositeKey k c) = Some e \<and>
                   held - createdAt e \<le> PRUNE_TTL_MS \<and> inputHash e \<noteq> h' \<and>
                   x = finalize_error)
            \<or> (\<exists>held. acquireLock E0 (t0 + LOCK_WAIT_TIMEOUT_MS) 0 t0 = Inr held \<and>
                   stringify J r' = Inl x)
            \<or> (acquireLock E0 (t0 + LOCK_WAIT_TIMEOUT_MS) 0 t0 = Inl x \<and>
                 (x = lock_failed_error \<or> x = store_busy_error)))
       \<and> err_code finalize_error = Some ''internal_error''
       \<and> err_code lock_failed_error = Some ''internal_error''
       \<and> err_code store_busy_error = Some ''retryable_upstream''"
proof -
  let ?new = "\<lparr>inputHash = h, responseJson = json, createdAt = now\<rparr>"
  have lc: "locked_complete E J k c h r t f = complete J k c h r now f"
    using lock by (simp add: locked_complete_def withLock_def)
  have a: "fst (complete J k c h r now f) = Inr ()"
    using absent ser by (cases f) (simp_all add: complete_def)
  have b: "stored (snd (complete J k c h r now f)) (compositeKey k c) = Some ?new"
    using absent ser by (cases f) (simp_all add: complete_def)
  obtain d where s: "snd (complete J k c h r now f) = Json d"
    using absent ser by (cases f) (simp_all add: complete_def)
  have d: "d (compositeKey k c) = Some ?new"
    using b s by simp
  have l: "\<forall>E' t' now'.
            json \<noteq> PENDING_RESPONSE_JSON \<and> parse J json = Some r \<and>
            acquireLock E' (t' + LOCK_WAIT_TIMEOUT_MS) 0 t' = Inr now' \<and>
            now' - now \<le> PRUNE_TTL_MS \<longrightarrow>
            fst (locked_lookup E' J k c h t' (snd (complete J k c h r now f)))
              = Inr (ReplayL r)"
  proof (intro allI impI)
    fix E' t' now'
    assume h: "json \<noteq> PENDING_RESPONSE_JSON \<and> parse J json = Some r \<and>
            acquireLock E' (t' + LOCK_WAIT_TIMEOUT_MS) 0 t' = Inr now' \<and>
            now' - now \<le> PRUNE_TTL_MS"
    have p: "prune now' d (compositeKey k c) = Some ?new"
      using d h by (simp add: prune_def)
    show "fst (locked_lookup E' J k c h t' (snd (complete J k c h r now f))) = Inr (ReplayL r)"
      using h by (simp add: locked_lookup_def withLock_def s lookup_def p)
  qed
  have only: "\<forall>E0 g h' r' t0 x.
            fst (locked_complete E0 J k c h' r' t0 g) = Inl x \<longrightarrow>
              (\<exists>held e. acquireLock E0 (t0 + LOCK_WAIT_TIMEOUT_MS) 0 t0 = Inr held \<and>
                   stored g (compositeKey k c) = Some e \<and>
                   held - createdAt e \<le> PRUNE_TTL_MS \<and> inputHash e \<noteq> h' \<and>
                   x = finalize_error)
            \<or> (\<exists>held. acquireLock E0 (t0 + LOCK_WAIT_TIMEOUT_MS) 0 t0 = Inr held \<and>
                   stringify J r' = Inl x)
            \<or> (acquireLock E0 (t0 + LOCK_WAIT_TIMEOUT_MS) 0 t0 = Inl x \<and>
                 (x = lock_failed_error \<or> x = store_busy_error))"
  proof (intro allI impI)
    fix E0 g h' r' t0 x
    assume thrown: "fst (locked_complete E0 J k c h' r' t0 g) = Inl x"
    show "(\<exists>held e. acquireLock E0 (t0 + LOCK_WAIT_TIMEOUT_MS) 0 t0 = Inr held \<and>
                   stored g (compositeKey k c) = Some e \<and>
                   held - createdAt e \<le> PRUNE_TTL_MS \<and> inputHash e \<noteq> h' \<and>
                   x = finalize_error)
            \<or> (\<exists>held. acquireLock E0 (t0 + LOCK_WAIT_TIMEOUT_MS) 0 t0 = Inr held \<and>
                   stringify J r' = Inl x)
            \<or> (acquireLock E0 (t0 + LOCK_WAIT_TIMEOUT_MS) 0 t0 = Inl x \<and>
                 (x = lock_failed_error \<or> x = store_busy_error))"
    proof (cases "acquireLock E0 (t0 + LOCK_WAIT_TIMEOUT_MS) 0 t0")
      case (Inl e)
      then have "e = x"
        using thrown by (simp add: locked_complete_def withLock_def)
      then show ?thesis
        using Inl acquireLock_throws by blast
    next
      case (Inr held)
      then have "fst (complete J k c h' r' held g) = Inl x"
        using thrown by (simp add: locked_complete_def withLock_def)
      then have "(x = finalize_error \<and>
          (\<exists>e. stored g (compositeKey k c) = Some e \<and> held - createdAt e \<le> PRUNE_TTL_MS \<and>
               inputHash e \<noteq> h'))
        \<or> stringify J r' = Inl x"
        by (rule complete_throws)
      then show ?thesis
        using Inr by auto
    qed
  qed
  have codes: "err_code finalize_error = Some ''internal_error''"
      "err_code lock_failed_error = Some ''internal_error''"
      "err_code store_busy_error = Some ''retryable_upstream''"
    by (simp_all add: finalize_error_def lock_failed_error_def store_busy_error_def CliError_def)
  show ?thesis
    unfolding lc using a b l only codes by blast
qed

lemma free_lock_acquired: "acquireLock free_lock (now + LOCK_WAIT_TIMEOUT_MS) 0 now = Inr now"
  by (subst acquireLock.simps) (simp add: free_lock_def LOCK_WAIT_TIMEOUT_MS_def)

theorem complete_absent_then_replay_witness:
  "fst (locked_lookup free_lock text_codec ''k'' ''c'' ''h'' 2000
          (snd (locked_complete free_lock text_codec ''k'' ''c'' ''h'' ''{}'' 1000 Missing)))
     = Inr (ReplayL ''{}'')"
proof -
  have ser: "stringify text_codec ''{}'' = Inr ''{}''"
    by (simp add: text_codec_def)
  have later: "''{}'' \<noteq> PENDING_RESPONSE_JSON \<and> parse text_codec ''{}'' = Some ''{}'' \<and>
      acquireLock free_lock (2000 + LOCK_WAIT_TIMEOUT_MS) 0 2000 = Inr 2000 \<and>
      (2000::int) - 1000 \<le> PRUNE_TTL_MS"
    using free_lock_acquired [of 2000]
    by (simp add: text_codec_def PENDING_RESPONSE_JSON_def PRUNE_TTL_MS_def)
  show ?thesis
    using complete_absent_then_replay
      [OF free_lock_acquired [of 1000], of Missing "''k''" "''c''" text_codec "''{}''" "''{}''" "''h''"]
      ser later
    by simp
qed

text \<open>
  C10 as stated fails for the outcome \<open>{ __notion_lite_pending: true }\<close>, whose
  serialisation is the PENDING sentinel itself: \<open>complete\<close> stores it without error, and
  the \<open>lookup\<close> that follows at once answers pending, not replay. It fails for any
  outcome when the \<open>lookup\<close> comes more than the TTL after \<open>complete\<close>: the entry is
  pruned and the answer is miss. And it fails where the lock file cannot be created:
  \<open>complete\<close> throws an \<open>internal_error\<close> although no entry is stored under the key.
\<close>

theorem complete_then_lookup_counterexample:
  "fst (locked_complete free_lock text_codec ''k'' ''c'' ''h'' PENDING_RESPONSE_JSON 1000 Missing)
     = Inr ()
 \<and> fst (locked_lookup free_lock text_codec ''k'' ''c'' ''h'' 1000
          (snd (locked_complete free_lock text_codec ''k'' ''c'' ''h'' PENDING_RESPONSE_JSON 1000
                  Missing)))
     = Inr PendingL
 \<and> fst (locked_complete free_lock text_codec ''k'' ''c'' ''h'' ''{}'' 1000 Missing) = Inr ()
 \<and> fst (locked_lookup free_lock text_codec ''k'' ''c'' ''h'' 181001
          (snd (locked_complete free_lock text_codec ''k'' ''c'' ''h'' ''{}'' 1000 Missing)))
     = Inr Miss
 \<and> stored Missing (compositeKey ''k'' ''c'') = None
 \<and> fst (locked_complete unwritable_lock text_codec ''k'' ''c'' ''h'' ''{}'' 1000 Missing)
     = Inl lock_failed_error
 \<and> err_code lock_failed_error = Some ''internal_error''"
  by (simp add: locked_complete_def locked_lookup_def withLock_def acquireLock.simps
      free_lock_def unwritable_lock_def LOCK_WAIT_TIMEOUT_MS_def lock_failed_error_def
      CliError_def complete_def lookup_def prune_def PRUNE_TTL_MS_def text_codec_def Let_def
      PENDING_RESPONSE_JSON_def)

section \<open>Properties of the mutation coordinator\<close>

subsection \<open>The store operations in terms of the stored map\<close>

lemma load_fst: "fst (loadDataUnlocked now f) = prune now (stored f)"
  by (cases f) (simp_all add: prune_def)

lemma load_snd: "stored (snd (loadDataUnlocked now f)) = prune now (stored f)"
  by (cases f) (simp_all add: prune_def)

lemma prune_SomeD: "prune now d k = Some e \<Longrightarrow> d k = Some e \<and> now - createdAt e \<le> PRUNE_TTL_MS"
  by (auto simp: prune_def split: option.splits if_splits)

lemma fst_lookup:
  "fst (lookup J k c h now f) =
     (case prune now (stored f) (compositeKey k c) of
        None \<Rightarrow> Inr Miss
      | Some entry \<Rightarrow>
          if inputHash entry \<noteq> h then Inr (ConflictL (inputHash entry))
          else if responseJson entry = PENDING_RESPONSE_JSON then Inr PendingL
          else (case parse J (responseJson entry) of
                  Some r \<Rightarrow> Inr (ReplayL r)
                | None \<Rightarrow> Inl corrupt_error))"
  by (simp add: lookup_def split_def Let_def load_fst split: option.splits)

lemma stored_lookup: "stored (snd (lookup J k c h now f)) = prune now (stored f)"
  by (simp add: lookup_def split_def Let_def load_snd split: option.splits)

lemma fst_reserve:
  "fst (reserve J k c h now f) =
     (case prune now (stored f) (compositeKey k c) of
        None \<Rightarrow> Inr Execute
      | Some entry \<Rightarrow>
          if inputHash entry \<noteq> h then Inr (ConflictR (inputHash entry))
          else if responseJson entry = PENDING_RESPONSE_JSON then Inr PendingR
          else (case parse J (responseJson entry) of
                  Some r \<Rightarrow> Inr (ReplayR r)
                | None \<Rightarrow> Inl corrupt_error))"
  by (simp add: reserve_def split_def Let_def load_fst split: option.splits)

lemma stored_reserve:
  "stored (snd (reserve J k c h now f)) =
     (case prune now (stored f) (compositeKey k c) of
        None \<Rightarrow> (prune now (stored f))(compositeKey k c \<mapsto> pending_entry h now)
      | Some entry \<Rightarrow> prune now (stored f))"
  by (simp add: reserve_def split_def Let_def load_fst load_snd pending_entry_def split: option.splits)


lemma stored_release:
  "stored (release k c h now f) =
     (case prune now (stored f) (compositeKey k c) of
        None \<Rightarrow> prune now (stored f)
      | Some entry \<Rightarrow>
          if inputHash entry = h \<and> responseJson entry = PENDING_RESPONSE_JSON
          then (prune now (stored f))(compositeKey k c := None)
          else prune now (stored f))"
  by (simp add: release_def split_def Let_def load_fst load_snd split: option.splits)

subsection \<open>The reservation phase\<close>

lemma store_only_refl: "store_only s s"
  by (simp add: store_only_def)

lemma store_only_trans: "store_only a b \<Longrightarrow> store_only b c \<Longrightarrow> store_only a c"
  by (auto simp: store_only_def)

lemma reserve_post:
  assumes "x = fst (reserve J k c h (clock s) (store s))"
    and "s1 = s\<lparr>store := snd (reserve J k c h (clock s) (store s))\<rparr>"
    and "x \<noteq> Inr PendingR"
  shows "poll_post J (compositeKey k c) h s x s1"
  using assms
  by (auto simp: poll_post_def store_only_def fst_reserve stored_reserve
      split: option.splits if_splits dest: prune_SomeD)

lemma reserve_post_pruned:
  assumes "prune (clock s) (stored (store s)) (compositeKey k c) = None"
    and "x = fst (reserve J k c h (clock s) (store s))"
    and "s1 = s\<lparr>store := snd (reserve J k c h (clock s) (store s))\<rparr>"
  shows "poll_post J (compositeKey k c) h s x s1"
  using assms
  by (auto simp: poll_post_def store_only_def fst_reserve stored_reserve
      split: option.splits if_splits dest: prune_SomeD)

lemma prune_idem: "prune now (prune now d) = prune now d"
  by (rule ext) (simp add: prune_def split: option.splits)

lemma poll_post_step:
  assumes "poll_post J ck h s2 x s1"
    and "store_only s s2"
    and "\<forall>e. stored (store s2) ck = Some e \<longrightarrow> stored (store s) ck = Some e"
  shows "poll_post J ck h s x s1"
  using assms unfolding poll_post_def
  by (auto intro: store_only_trans)

lemma poll_spec:
  "poll J k c h dl s = (x, s1) \<Longrightarrow> x = Inr (Some l) \<Longrightarrow>
     poll_post J (compositeKey k c) h s (Inr l) s1"
proof (induction J k c h dl s arbitrary: x s1 l rule: poll.induct)
  case (1 J k c h dl s)
  let ?s1 = "s\<lparr>clock := clock s + 50\<rparr>"
  let ?cur = "lookup J k c h (clock ?s1) (store ?s1)"
  let ?s2 = "?s1\<lparr>store := snd ?cur\<rparr>"
  have lt: "clock s < dl"
    using "1.prems" by (subst (asm) poll.simps) (auto split: if_splits)
  have so: "store_only s ?s2"
    by (simp add: store_only_def)
  have sub: "\<forall>e. stored (store ?s2) (compositeKey k c) = Some e \<longrightarrow>
                 stored (store s) (compositeKey k c) = Some e"
    by (auto simp: stored_lookup dest: prune_SomeD)
  show ?case
  proof (cases "fst ?cur")
    case (Inl e)
    then show ?thesis
      using "1.prems" lt by (subst (asm) poll.simps) (simp add: Let_def)
  next
    case (Inr cur)
    show ?thesis
    proof (cases cur)
      case Miss
      let ?again = "reserve J k c h (clock ?s2) (store ?s2)"
      let ?s3 = "?s2\<lparr>store := snd ?again\<rparr>"
      have res: "fst ?again = Inr l" and s1: "s1 = ?s3"
        using "1.prems" lt Inr Miss
        by (subst (asm) poll.simps, simp add: Let_def split: sum.splits)+
      have none: "prune (clock ?s2) (stored (store ?s2)) (compositeKey k c) = None"
        using Inr Miss
        by (simp add: stored_lookup prune_idem fst_lookup split: option.splits if_splits)
      have "poll_post J (compositeKey k c) h ?s2 (Inr l) ?s3"
        using reserve_post_pruned [OF none, of "Inr l" J h ?s3] res by simp
      then show ?thesis
        using poll_post_step [OF _ so sub] s1 by blast
    next
      case PendingL
      have rec: "poll J k c h dl ?s2 = (x, s1)"
        using "1.prems" lt Inr PendingL by (subst (asm) poll.simps) (simp add: Let_def)
      have "poll_post J (compositeKey k c) h ?s2 (Inr l) s1"
        using "1.IH" [OF lt refl refl refl Inr PendingL rec "1.prems"(2)] .
      then show ?thesis
        using poll_post_step [OF _ so sub] by blast
    next
      case (ReplayL r)
      have x: "l = ReplayR r" and s1: "s1 = ?s2"
        using "1.prems" lt Inr ReplayL
        by (subst (asm) poll.simps, simp add: Let_def)+
      have "\<exists>e. prune (clock s + 50) (stored (store s)) (compositeKey k c) = Some e \<and>
                inputHash e = h \<and> responseJson e \<noteq> PENDING_RESPONSE_JSON \<and>
                parse J (responseJson e) = Some r"
        using Inr ReplayL by (auto simp: fst_lookup split: option.splits if_splits)
      then show ?thesis
        using x s1 so
        by (auto simp: poll_post_def stored_lookup dest: prune_SomeD)
    next
      case (ConflictL sh)
      have x: "l = ConflictR sh" and s1: "s1 = ?s2"
        using "1.prems" lt Inr ConflictL
        by (subst (asm) poll.simps, simp add: Let_def)+
      show ?thesis
        using x s1 so
        by (auto simp: poll_post_def stored_lookup dest: prune_SomeD)
    qed
  qed
qed

lemma poll_timeout:
  "poll J k c h dl s = (Inr None, s1) \<Longrightarrow>
     store_only s s1 \<and>
     (\<forall>e. stored (store s1) (compositeKey k c) = Some e \<longrightarrow>
            stored (store s) (compositeKey k c) = Some e)"
proof (induction J k c h dl s arbitrary: s1 rule: poll.induct)
  case (1 J k c h dl s)
  let ?s1 = "s\<lparr>clock := clock s + 50\<rparr>"
  let ?cur = "lookup J k c h (clock ?s1) (store ?s1)"
  let ?s2 = "?s1\<lparr>store := snd ?cur\<rparr>"
  show ?case
  proof (cases "clock s < dl")
    case False
    then have "s1 = s" using "1.prems" by (subst (asm) poll.simps) simp
    then show ?thesis by (simp add: store_only_refl)
  next
    case lt: True
    have so: "store_only s ?s2"
      by (simp add: store_only_def)
    have sub: "\<forall>e. stored (store ?s2) (compositeKey k c) = Some e \<longrightarrow>
                 stored (store s) (compositeKey k c) = Some e"
      by (auto simp: stored_lookup dest: prune_SomeD)
    have pend: "fst ?cur = Inr PendingL"
      using "1.prems" lt
      by (subst (asm) poll.simps)
         (auto simp: Let_def split: sum.splits IdempotencyLookup.splits)
    have rec: "poll J k c h dl ?s2 = (Inr None, s1)"
      using "1.prems" lt pend by (subst (asm) poll.simps) (simp add: Let_def)
    have "store_only ?s2 s1 \<and>
     (\<forall>e. stored (store s1) (compositeKey k c) = Some e \<longrightarrow>
            stored (store ?s2) (compositeKey k c) = Some e)"
      using "1.IH" [OF lt refl refl refl pend refl rec] .
    then show ?thesis
      using so sub by (auto intro: store_only_trans)
  qed
qed

lemma acquire_spec:
  assumes "acquire J k c h s = (Inr l, s1)"
  shows "poll_post J (compositeKey k c) h s (Inr l) s1"
proof -
  let ?first = "reserve J k c h (clock s) (store s)"
  let ?s0 = "s\<lparr>store := snd ?first\<rparr>"
  have so: "store_only s ?s0"
    by (simp add: store_only_def)
  have sub: "fst ?first = Inr PendingR \<Longrightarrow>
     \<forall>e. stored (store ?s0) (compositeKey k c) = Some e \<longrightarrow>
         stored (store s) (compositeKey k c) = Some e"
    by (auto simp: stored_reserve fst_reserve split: option.splits dest: prune_SomeD)
  show ?thesis
  proof (cases "fst ?first = Inr PendingR")
    case False
    then have "fst ?first = Inr l" and "s1 = ?s0"
      using assms
      by (auto simp: acquire_def Let_def
          split: sum.splits IdempotencyReservation.splits)
    then show ?thesis
      using reserve_post [of "Inr l" J k c h s s1] False by simp
  next
    case True
    obtain y s' where p: "poll J k c h (clock ?s0 + 15000) ?s0 = (y, s')"
      by (cases "poll J k c h (clock ?s0 + 15000) ?s0") auto
    show ?thesis
    proof (cases y)
      case (Inl e)
      then show ?thesis
        using assms True p by (simp add: acquire_def Let_def)
    next
      case (Inr ob)
      show ?thesis
      proof (cases ob)
        case (Some l')
        have "l' = l" and "s' = s1"
          using assms True p Inr Some by (simp_all add: acquire_def Let_def)
        then have "poll_post J (compositeKey k c) h ?s0 (Inr l) s1"
          using poll_spec [OF p] Inr Some by simp
        then show ?thesis
          using poll_post_step [OF _ so sub [OF True]] by blast
      next
        case None
        let ?last = "reserve J k c h (clock s') (store s')"
        let ?s2 = "s'\<lparr>store := snd ?last\<rparr>"
        have t: "store_only ?s0 s' \<and>
           (\<forall>e. stored (store s') (compositeKey k c) = Some e \<longrightarrow>
              stored (store ?s0) (compositeKey k c) = Some e)"
          using poll_timeout [of J k c h _ ?s0 s'] p Inr None by simp
        have l: "fst ?last = Inr l" "s1 = ?s2" "fst ?last \<noteq> Inr PendingR"
          using assms True p Inr None
          by (auto simp: acquire_def Let_def
              split: sum.splits IdempotencyReservation.splits)
        have "poll_post J (compositeKey k c) h s' (Inr l) s1"
          using reserve_post [of "Inr l" J k c h s' s1] l by simp
        then show ?thesis
          using poll_post_step [of J "compositeKey k c" h s' "Inr l" s1 s] so sub [OF True] t
          by (auto intro: store_only_trans)
      qed
    qed
  qed
qed

subsection \<open>Execution with the reservation owned\<close>



subsection \<open>Two invocations of the same request\<close>








subsection \<open>Ambiguous failures\<close>

lemma fail_owned_spec:
  assumes "stored (store s) (compositeKey k c) = Some (pending_entry h t)"
  shows "fst (fail True k c h ra ou e s) = Inl e
       \<and> stored (store (snd (fail True k c h ra ou e s))) (compositeKey k c) = None
       \<and> store (snd (fail True k c h ra ou e s)) = release k c h (clock s) (store s)
       \<and> clock (snd (fail True k c h ra ou e s)) = clock s
       \<and> a_ok (last (audit_log (snd (fail True k c h ra ou e s)))) = False
       \<and> a_outcome_uncertain (last (audit_log (snd (fail True k c h ra ou e s)))) = Some ou
       \<and> run_calls (snd (fail True k c h ra ou e s)) = run_calls s"
  using assms
  by (auto simp: fail_def Let_def safeAppendAuditLog_def stored_release pending_entry_def
      split: option.splits dest!: prune_SomeD)

text \<open>
  C2. When the coordinator owns the reservation, \<open>run\<close> throws an ambiguous error, and
  \<open>recover\<close> is absent, resolves to \<open>null\<close> or throws, the invocation throws the one
  retryable error "Mutation outcome could not be confirmed" whatever the raw error was,
  the store is left as \<open>release\<close> leaves it with no entry under the request's key (so
  neither a success nor a failure is recorded), and the audit event says \<open>ok = false\<close>,
  \<open>outcome_uncertain = true\<close>.
\<close>

theorem ambiguous_failure_unconfirmed:
  assumes own: "acquire J
        (buildInternalIdempotencyKey H (commandName args) (requestShape args) (clock s))
        (commandName args) (hashShape H (requestShape args)) s = (Inr Execute, s1)"
    and ran: "run args (remote s1) = (Inl error, w1, d1)"
    and amb: "isAmbiguousMutationError error (isAmbiguousError args)"
    and unrecovered: "recover args = None
        \<or> (\<exists>rec. recover args = Some rec \<and>
               (fst (rec w1) = Inr None \<or> (\<exists>e. fst (rec w1) = Inl e)))"
  shows "fst (executeMutationWithIdempotency J H args s) = Inl unconfirmed_error
       \<and> err_code unconfirmed_error = Some ''retryable_upstream''
       \<and> err_retryable unconfirmed_error
       \<and> err_message unconfirmed_error
           = ''Mutation outcome could not be confirmed. Re-read before retrying.''
       \<and> store (snd (executeMutationWithIdempotency J H args s))
           = release
               (buildInternalIdempotencyKey H (commandName args) (requestShape args) (clock s))
               (commandName args) (hashShape H (requestShape args))
               (clock (snd (executeMutationWithIdempotency J H args s))) (store s1)
       \<and> stored (store (snd (executeMutationWithIdempotency J H args s)))
            (request_key H args (clock s)) = None
       \<and> a_ok (last (audit_log (snd (executeMutationWithIdempotency J H args s)))) = False
       \<and> a_outcome_uncertain (last (audit_log (snd (executeMutationWithIdempotency J H args s))))
           = Some True
       \<and> run_calls (snd (executeMutationWithIdempotency J H args s)) = Suc (run_calls s1)"
proof -
  let ?k = "buildInternalIdempotencyKey H (commandName args) (requestShape args) (clock s)"
  let ?c = "commandName args"
  let ?h = "hashShape H (requestShape args)"
  let ?s2 = "s1\<lparr>remote := w1, clock := clock s1 + int d1, run_calls := Suc (run_calls s1)\<rparr>"
  have ex: "executeMutationWithIdempotency J H args s = owned J ?k ?h args s1"
    using own by (simp add: executeMutationWithIdempotency_def Let_def)
  have "poll_post J (compositeKey ?k ?c) ?h s (Inr Execute) s1"
    using acquire_spec [OF own] .
  then have pe: "stored (store s1) (compositeKey ?k ?c) = Some (pending_entry ?h (clock s1))"
    by (simp add: poll_post_def)
  have "\<exists>s3. owned J ?k ?h args s1 = fail True ?k ?c ?h True True unconfirmed_error s3
           \<and> store s3 = store s1 \<and> run_calls s3 = Suc (run_calls s1)"
    using unrecovered
  proof
    assume "recover args = None"
    then have "owned J ?k ?h args s1 = fail True ?k ?c ?h True True unconfirmed_error ?s2"
      using ran amb by (simp add: owned_def Let_def)
    then show ?thesis by (intro exI [of _ ?s2]) simp
  next
    assume "\<exists>rec. recover args = Some rec \<and>
               (fst (rec w1) = Inr None \<or> (\<exists>e. fst (rec w1) = Inl e))"
    then obtain rec where r: "recover args = Some rec"
      and out: "fst (rec w1) = Inr None \<or> (\<exists>e. fst (rec w1) = Inl e)" by blast
    obtain recd w2 d2 where rr: "rec w1 = (recd, w2, d2)"
      by (cases "rec w1") auto
    let ?s3 = "?s2\<lparr>remote := w2, clock := clock ?s2 + int d2,
                     recover_calls := Suc (recover_calls ?s2)\<rparr>"
    have "owned J ?k ?h args s1 = fail True ?k ?c ?h True True unconfirmed_error ?s3"
      using ran amb r rr out by (auto simp: owned_def Let_def)
    then show ?thesis by (intro exI [of _ ?s3]) simp
  qed
  then obtain s3 where o: "owned J ?k ?h args s1 = fail True ?k ?c ?h True True unconfirmed_error s3"
    and st: "store s3 = store s1" and rc: "run_calls s3 = Suc (run_calls s1)" by blast
  have "stored (store s3) (compositeKey ?k ?c) = Some (pending_entry ?h (clock s1))"
    using pe st by simp
  then have f: "fst (fail True ?k ?c ?h True True unconfirmed_error s3) = Inl unconfirmed_error
       \<and> stored (store (snd (fail True ?k ?c ?h True True unconfirmed_error s3)))
            (compositeKey ?k ?c) = None
       \<and> store (snd (fail True ?k ?c ?h True True unconfirmed_error s3))
            = release ?k ?c ?h (clock s3) (store s3)
       \<and> clock (snd (fail True ?k ?c ?h True True unconfirmed_error s3)) = clock s3
       \<and> a_ok (last (audit_log (snd (fail True ?k ?c ?h True True unconfirmed_error s3)))) = False
       \<and> a_outcome_uncertain
            (last (audit_log (snd (fail True ?k ?c ?h True True unconfirmed_error s3)))) = Some True
       \<and> run_calls (snd (fail True ?k ?c ?h True True unconfirmed_error s3)) = run_calls s3"
    by (rule fail_owned_spec)
  have e: "executeMutationWithIdempotency J H args s
             = fail True ?k ?c ?h True True unconfirmed_error s3"
    using ex o by simp
  have u: "err_code unconfirmed_error = Some ''retryable_upstream''
       \<and> err_retryable unconfirmed_error
       \<and> err_message unconfirmed_error
           = ''Mutation outcome could not be confirmed. Re-read before retrying.''"
    by (simp add: unconfirmed_error_def CliError_def)
  let ?r = "fail True ?k ?c ?h True True unconfirmed_error s3"
  have c1: "fst ?r = Inl unconfirmed_error" using f by blast
  have c2: "stored (store (snd ?r)) (compositeKey ?k ?c) = None" using f by blast
  have c3: "store (snd ?r) = release ?k ?c ?h (clock (snd ?r)) (store s1)"
    using f st by metis
  have c4: "a_ok (last (audit_log (snd ?r))) = False" using f by blast
  have c5: "a_outcome_uncertain (last (audit_log (snd ?r))) = Some True" using f by blast
  have c6: "run_calls (snd ?r) = Suc (run_calls s1)" using f rc by metis
  show ?thesis
    unfolding e request_key_def using c1 c2 c3 c4 c5 c6 u by blast
qed

theorem ambiguous_failure_unconfirmed_witness:
  "fst (executeMutationWithIdempotency text_codec plain_hash args_ambiguous world0)
     = Inl unconfirmed_error
 \<and> stored (store (snd (executeMutationWithIdempotency text_codec plain_hash args_ambiguous world0)))
      (request_key plain_hash args_ambiguous (clock world0)) = None"
proof -
  let ?k = "buildInternalIdempotencyKey plain_hash (commandName args_ambiguous)
              (requestShape args_ambiguous) (clock world0)"
  let ?a = "acquire text_codec ?k (commandName args_ambiguous)
              (hashShape plain_hash (requestShape args_ambiguous)) world0"
  have a: "fst ?a = Inr Execute"
    by (simp add: acquire_def fst_reserve Let_def world0_def prune_def)
  have r: "remote (snd ?a) = 0"
    by (simp add: acquire_def fst_reserve Let_def world0_def prune_def)
  have own: "?a = (Inr Execute, snd ?a)"
    using a by (simp add: prod_eq_iff)
  have ran: "run args_ambiguous (remote (snd ?a))
       = (Inl \<lparr>is_cli_error = False, err_code = None, err_status = Some 500,
                err_message = ''Internal Server Error'', err_retryable = False\<rparr>, Suc 0, 20)"
    unfolding r by (simp add: args_ambiguous_def)
  have amb: "isAmbiguousMutationError
       \<lparr>is_cli_error = False, err_code = None, err_status = Some 500,
         err_message = ''Internal Server Error'', err_retryable = False\<rparr>
       (isAmbiguousError args_ambiguous)"
    by (simp add: isAmbiguousMutationError_def args_ambiguous_def)
  have unrec: "recover args_ambiguous = None
        \<or> (\<exists>rec. recover args_ambiguous = Some rec \<and>
               (fst (rec (Suc 0)) = Inr None \<or> (\<exists>e. fst (rec (Suc 0)) = Inl e)))"
    by (simp add: args_ambiguous_def)
  show ?thesis
    using ambiguous_failure_unconfirmed [OF own ran amb unrec] by blast
qed

section \<open>Properties of the block functions\<close>

subsection \<open>Selector resolution\<close>

lemma normalize_label:
  "normalizeSelector sel l1 = Inr ns \<Longrightarrow> normalizeSelector sel l2 = Inr ns"
  by (auto simp: normalizeSelector_def split: option.splits if_splits)

lemma strict_nth_out_of_range:
  assumes "normalizeSelector sel l0 = Inr ns" and "n_nth ns = Some n"
    and "int (length (filter (\<lambda>b. matchesSelector S b ns) bs)) < n"
  shows "\<exists>e. resolveSelectorStrict S bs sel label = Inl e \<and> err_code e = Some ''not_found''"
proof -
  have norm: "normalizeSelector sel label = Inr ns"
    using assms(1) by (rule normalize_label)
  show ?thesis
    using assms(2,3)
    by (auto simp: resolveSelectorStrict_def norm Let_def nth_index_def CliError_def)
qed

lemma strict_ambiguous:
  assumes "normalizeSelector sel l0 = Inr ns" and "n_nth ns = None"
    and "length (filter (\<lambda>b. matchesSelector S b ns) bs) > 1"
  shows "\<exists>e. resolveSelectorStrict S bs sel label = Inl e \<and> err_code e = Some ''conflict''"
proof -
  have norm: "normalizeSelector sel label = Inr ns"
    using assms(1) by (rule normalize_label)
  show ?thesis
    using assms(2,3)
    by (auto simp: resolveSelectorStrict_def norm Let_def CliError_def)
qed

lemma strict_nth_in_range:
  assumes "normalizeSelector sel l0 = Inr ns" and "n_nth ns = Some n"
    and "1 \<le> n" and "n \<le> int (length (filter (\<lambda>b. matchesSelector S b ns) bs))"
  shows "\<exists>res. resolveSelectorStrict S bs sel label = Inr res \<and>
           res_selected res =
             (if n_from ns = FromStart
              then filter (\<lambda>b. matchesSelector S b ns) bs ! nat (n - 1)
              else filter (\<lambda>b. matchesSelector S b ns) bs
                     ! nat (int (length (filter (\<lambda>b. matchesSelector S b ns) bs)) - n))"
proof -
  have norm: "normalizeSelector sel label = Inr ns"
    using assms(1) by (rule normalize_label)
  show ?thesis
    using assms(2,3,4)
    by (auto simp: resolveSelectorStrict_def norm Let_def nth_index_def)
qed

lemma select_nth_out_of_range:
  assumes "normalizeSelector sel ''selector-json'' = Inr ns"
    and "flattenScopeBlocks fuel notion scope maxB r = Some (Inr flat, r1)"
    and "n_nth ns = Some n"
    and "int (length (filter (\<lambda>b. matchesSelector S b ns) (blocks flat))) < n"
  shows "\<exists>e. selectBlocks S fuel notion scope sel maxB r = Some (Inl e, r1) \<and>
             err_code e = Some ''not_found''"
  using assms
  by (auto simp: selectBlocks_def Let_def nth_index_def CliError_def)

lemma select_ambiguous:
  assumes "normalizeSelector sel ''selector-json'' = Inr ns"
    and "flattenScopeBlocks fuel notion scope maxB r = Some (Inr flat, r1)"
    and "n_nth ns = None"
    and "length (filter (\<lambda>b. matchesSelector S b ns) (blocks flat)) > 1"
  shows "\<exists>s. selectBlocks S fuel notion scope sel maxB r = Some (Inr s, r1) \<and>
             sel_ambiguous s \<and> sel_selected s = None \<and>
             sel_matches s = filter (\<lambda>b. matchesSelector S b ns) (blocks flat) \<and>
             sel_matches s \<noteq> [] \<and> sel_match_count s = length (sel_matches s)"
  using assms
  by (auto simp: selectBlocks_def Let_def)

text \<open>
  C4. For a selector that passes normalisation and a flattened scope: when \<open>nth\<close> is
  present and exceeds the number of matches, \<open>selectBlocks\<close> and \<open>resolveSelectorStrict\<close>
  fail with \<open>not_found\<close> (no index is clamped); when \<open>nth\<close> is within the matches, the
  strict resolver selects match \<open>nth - 1\<close> counted from the front for \<open>start\<close> and match
  \<open>length - nth\<close> (the \<open>nth\<close> from the back) for \<open>end\<close>; when \<open>nth\<close> is absent and more
  than one block matches, \<open>selectBlocks\<close> returns \<open>ambiguous = true\<close>, \<open>selected = null\<close>
  and the non-empty list of matches, while the strict resolver fails with \<open>conflict\<close>.
\<close>

theorem selector_resolution:
  assumes norm: "normalizeSelector sel ''selector-json'' = Inr ns"
    and flat: "flattenScopeBlocks fuel notion scope maxB r = Some (Inr flat, r1)"
  shows "(\<forall>n. n_nth ns = Some n \<and>
              int (length (filter (\<lambda>b. matchesSelector S b ns) (blocks flat))) < n \<longrightarrow>
            (\<exists>e. selectBlocks S fuel notion scope sel maxB r = Some (Inl e, r1) \<and>
                 err_code e = Some ''not_found''))
       \<and> (\<forall>n bs label. n_nth ns = Some n \<and>
              int (length (filter (\<lambda>b. matchesSelector S b ns) bs)) < n \<longrightarrow>
            (\<exists>e. resolveSelectorStrict S bs sel label = Inl e \<and> err_code e = Some ''not_found''))
       \<and> (\<forall>n bs label. n_nth ns = Some n \<and> 1 \<le> n \<and>
              n \<le> int (length (filter (\<lambda>b. matchesSelector S b ns) bs)) \<longrightarrow>
            (\<exists>res. resolveSelectorStrict S bs sel label = Inr res \<and>
               res_selected res =
                 (if n_from ns = FromStart
                  then filter (\<lambda>b. matchesSelector S b ns) bs ! nat (n - 1)
                  else filter (\<lambda>b. matchesSelector S b ns) bs
                         ! nat (int (length (filter (\<lambda>b. matchesSelector S b ns) bs)) - n))))
       \<and> (n_nth ns = None \<and>
            length (filter (\<lambda>b. matchesSelector S b ns) (blocks flat)) > 1 \<longrightarrow>
            (\<exists>s. selectBlocks S fuel notion scope sel maxB r = Some (Inr s, r1) \<and>
                 sel_ambiguous s \<and> sel_selected s = None \<and>
                 sel_matches s = filter (\<lambda>b. matchesSelector S b ns) (blocks flat) \<and>
                 sel_matches s \<noteq> [] \<and> sel_match_count s = length (sel_matches s)))
       \<and> (\<forall>bs label. n_nth ns = None \<and>
              length (filter (\<lambda>b. matchesSelector S b ns) bs) > 1 \<longrightarrow>
            (\<exists>e. resolveSelectorStrict S bs sel label = Inl e \<and> err_code e = Some ''conflict''))"
  using select_nth_out_of_range [OF norm flat] strict_nth_out_of_range [OF norm]
    strict_nth_in_range [OF norm] select_ambiguous [OF norm flat] strict_ambiguous [OF norm]
  by blast

subsection \<open>Scanning only reads the remote service\<close>

lemma only_listed_refl: "only_listed r r"
  by (simp add: only_listed_def)

lemma only_listed_trans: "only_listed a b \<Longrightarrow> only_listed b c \<Longrightarrow> only_listed a c"
  by (auto simp: only_listed_def)

lemma call_list_only_listed: "only_listed r (snd (call_list notion p c r))"
  by (simp add: only_listed_def call_list_def Let_def)

lemma listDirectChildren_loop_only_listed:
  "listDirectChildren_loop fuel notion p c items r = Some (x, r1) \<Longrightarrow> only_listed r r1"
proof (induction fuel arbitrary: c items r)
  case 0
  then show ?case by simp
next
  case (Suc fuel)
  obtain y r0 where cl: "call_list notion p c r = (y, r0)"
    by (cases "call_list notion p c r") auto
  have step: "only_listed r r0"
    using call_list_only_listed [of r notion p c] cl by simp
  show ?case
  proof (cases y)
    case (Inl e)
    then show ?thesis using Suc.prems cl step by simp
  next
    case (Inr response)
    show ?thesis
    proof (cases "\<not> has_more response
                 \<or> (case next_cursor response of None \<Rightarrow> True | Some c \<Rightarrow> c = [])")
      case True
      then have "r1 = r0"
        using Suc.prems cl Inr by (auto simp: Let_def)
      then show ?thesis using step by simp
    next
      case False
      then have "\<exists>items1. listDirectChildren_loop fuel notion p (next_cursor response) items1 r0
                    = Some (x, r1)"
        using Suc.prems cl Inr by (auto simp: Let_def)
      then have "only_listed r0 r1" using Suc.IH by blast
      then show ?thesis using step only_listed_trans by blast
    qed
  qed
qed

lemma listDirectChildren_only_listed:
  "listDirectChildren fuel notion p r = Some (x, r1) \<Longrightarrow> only_listed r r1"
  unfolding listDirectChildren_def by (rule listDirectChildren_loop_only_listed)

lemma walk_only_listed:
  "walk fuel notion maxB p acc r = Some (x, r1) \<Longrightarrow> only_listed r r1"
  and walk_children_only_listed:
  "walk_children fuel notion maxB sibs acc r = Some (x, r1) \<Longrightarrow> only_listed r r1"
proof (induction fuel notion maxB p acc r and fuel notion maxB sibs acc r
       arbitrary: x r1 and x r1 rule: walk_walk_children.induct)
  case (1 notion maxBlocks parentId acc r)
  then show ?case by simp
next
  case (2 fuel notion maxBlocks parentId acc r)
  obtain y r0 where l: "listDirectChildren fuel notion parentId r = Some (y, r0)"
    using "2.prems" by (auto split: option.splits)
  have step: "only_listed r r0"
    using l by (rule listDirectChildren_only_listed)
  show ?case
  proof (cases y)
    case (Inl e)
    then show ?thesis using "2.prems" l step by simp
  next
    case (Inr siblingsRaw)
    show ?thesis
    proof (cases "push_siblings maxBlocks parentId (entries siblingsRaw) (blocks acc) []")
      case (Inl e)
      then show ?thesis using "2.prems" l Inr step by simp
    next
      case inr: (Inr pushed)
      obtain blocks1 siblings where p: "pushed = (blocks1, siblings)"
        by (cases pushed) auto
      have wc: "walk_children fuel notion maxBlocks siblings
              \<lparr>blocks = blocks1,
               siblingsByParent = (parentId, siblings) # siblingsByParent acc\<rparr> r0
            = Some (x, r1)"
        using "2.prems" l Inr inr p by simp
      have "only_listed r0 r1"
        using "2.IH" [OF l refl Inr inr [unfolded p] refl wc] .
      then show ?thesis using step only_listed_trans by blast
    qed
  qed
next
  case (3 fuel notion maxBlocks acc r)
  then show ?case by (simp add: only_listed_refl)
next
  case (4 fuel notion maxBlocks sibling rest acc r)
  show ?case
  proof (cases "has_children sibling")
    case False
    then show ?thesis using "4.prems" "4.IH"(3) by simp
  next
    case True
    obtain y r0 where w: "walk fuel notion maxBlocks (block_id sibling) acc r = Some (y, r0)"
      using "4.prems" True by (auto split: option.splits)
    have step: "only_listed r r0"
      using "4.IH"(1) [OF True w] .
    show ?thesis
    proof (cases y)
      case (Inl e)
      then show ?thesis using "4.prems" True w step by simp
    next
      case (Inr acc1)
      have wc: "walk_children fuel notion maxBlocks rest acc1 r0 = Some (x, r1)"
        using "4.prems" True w Inr by simp
      have "only_listed r0 r1"
        using "4.IH"(2) [OF True w refl Inr wc] .
      then show ?thesis using step only_listed_trans by blast
    qed
  qed
qed

lemma flatten_only_listed:
  "flattenScopeBlocks fuel notion scope maxB r = Some (x, r1) \<Longrightarrow> only_listed r r1"
  unfolding flattenScopeBlocks_def by (rule walk_only_listed)

text \<open>
  C3. In a replace-range execution that is not a dry run, when the fingerprint of the
  siblings re-read just before mutating differs from the fingerprint of the siblings
  seen while planning, \<open>replaceBlockRange\<close> fails with the \<open>conflict\<close> error and every call
  it has made to the remote service is a listing: nothing was inserted or deleted.
\<close>

theorem changed_fingerprint_conflict:
  assumes flat: "flattenScopeBlocks fuel notion (scopeId args) (scanMaxBlocks args) r
                   = Some (Inr flat, r1)"
    and plan: "planRange S flat args = Inr (plan, siblings, blocksToDelete)"
    and wet: "\<not> dryRun args"
    and relist: "listDirectChildren fuel notion (plan_parent_id plan) r1 = Some (Inr cur, r2)"
    and changed: "siblingsFingerprint (currentSiblingsOf (plan_parent_id plan) cur)
                    \<noteq> siblingsFingerprint siblings"
  shows "replaceBlockRange S fuel notion args r = Some (Inl range_changed_error, r2)
       \<and> err_code range_changed_error = Some ''conflict''
       \<and> (\<exists>cs. calls r2 = calls r @ cs \<and> list_all is_list_call cs)"
proof -
  have res: "replaceBlockRange S fuel notion args r = Some (Inl range_changed_error, r2)"
    using flat plan wet relist changed
    by (simp add: replaceBlockRange_def Let_def)
  have "only_listed r r1" using flat by (rule flatten_only_listed)
  moreover have "only_listed r1 r2" using relist by (rule listDirectChildren_only_listed)
  ultimately have "only_listed r r2" by (rule only_listed_trans)
  then show ?thesis
    using res by (simp add: only_listed_def range_changed_error_def CliError_def)
qed

subsection \<open>The order of the flattened blocks\<close>

lemma push_siblings_spec:
  "push_siblings maxB p es bs sibs0 = Inr (bs1, sibs1) \<Longrightarrow>
     \<exists>new. bs1 = bs @ new \<and> sibs1 = sibs0 @ new \<and>
       map erase_order new =
         map erase_order
           (concat (map (\<lambda>(siblingIndex, block).
                           case raw_id block of
                             None \<Rightarrow> []
                           | Some ident \<Rightarrow>
                               if ident = [] then []
                               else [toFlatBlock ident p block siblingIndex siblingIndex]) es)) \<and>
       (\<forall>j<length new. order_index (new ! j) = length bs + j)"
proof (induction es arbitrary: bs sibs0)
  case Nil
  then show ?case by simp
next
  case (Cons a es)
  obtain i block where a: "a = (i, block)" by (cases a) auto
  show ?case
  proof (cases "raw_id block")
    case None
    then show ?thesis using Cons.prems Cons.IH a by simp
  next
    case (Some ident)
    show ?thesis
    proof (cases "ident = []")
      case True
      then show ?thesis using Cons.prems Cons.IH a Some by simp
    next
      case False
      let ?flat = "toFlatBlock ident p block i (length bs)"
      have rec: "push_siblings maxB p es (bs @ [?flat]) (sibs0 @ [?flat]) = Inr (bs1, sibs1)"
        using Cons.prems a Some False by (simp add: Let_def split: if_splits)
      from Cons.IH [OF rec] obtain new where
        n: "bs1 = (bs @ [?flat]) @ new" "sibs1 = (sibs0 @ [?flat]) @ new"
           "map erase_order new =
              map erase_order
                (concat (map (\<lambda>(siblingIndex, block).
                           case raw_id block of
                             None \<Rightarrow> []
                           | Some ident \<Rightarrow>
                               if ident = [] then []
                               else [toFlatBlock ident p block siblingIndex siblingIndex]) es))"
           "\<forall>j<length new. order_index (new ! j) = length (bs @ [?flat]) + j"
        by blast
      have e: "erase_order ?flat = erase_order (toFlatBlock ident p block i i)"
        by (simp add: erase_order_def toFlatBlock_def)
      have o: "\<forall>j<length (?flat # new). order_index ((?flat # new) ! j) = length bs + j"
      proof (intro allI impI)
        fix j assume "j < length (?flat # new)"
        then show "order_index ((?flat # new) ! j) = length bs + j"
          using n(4) by (cases j) (simp_all add: toFlatBlock_def)
      qed
      show ?thesis
        using n(1,2,3) e o a Some False
        by (intro exI [of _ "?flat # new"]) simp
    qed
  qed
qed

lemma indexed_append:
  "indexed bs \<Longrightarrow> \<forall>j<length new. order_index (new ! j) = length bs + j \<Longrightarrow>
   indexed (bs @ new)"
  by (auto simp: indexed_def nth_append)

lemma flat_inv_push:
  assumes inv: "flat_inv notion acc"
    and l: "listDirectChildren fuel notion p r = Some (Inr raw, r0)"
    and push: "push_siblings maxB p (entries raw) (blocks acc) [] = Inr (blocks1, siblings)"
  shows "flat_inv notion
           \<lparr>blocks = blocks1, siblingsByParent = (p, siblings) # siblingsByParent acc\<rparr>"
proof -
  from push_siblings_spec [OF push] obtain new where
    n: "blocks1 = blocks acc @ new" "siblings = [] @ new"
       "map erase_order new = map erase_order (currentSiblingsOf p raw)"
       "\<forall>j<length new. order_index (new ! j) = length (blocks acc) + j"
    unfolding currentSiblingsOf_def by blast
  have sn: "siblings = new" using n(2) by simp
  have ix: "indexed blocks1"
    using inv n(1,4) by (simp add: flat_inv_def indexed_append)
  have ls: "listed_siblings notion p siblings"
    unfolding listed_siblings_def using l n(3) sn by blast
  have seg: "\<exists>pre post. blocks1 = pre @ siblings @ post"
    using n(1) sn by (intro exI [of _ "blocks acc"] exI [of _ "[]"]) simp
  have old: "\<And>q sibs. map_of (siblingsByParent acc) q = Some sibs \<Longrightarrow>
        (\<exists>pre post. blocks1 = pre @ sibs @ post) \<and> listed_siblings notion q sibs"
  proof -
    fix q sibs assume "map_of (siblingsByParent acc) q = Some sibs"
    then obtain pre post where "blocks acc = pre @ sibs @ post"
      and k: "listed_siblings notion q sibs"
      using inv unfolding flat_inv_def by blast
    then have "blocks1 = pre @ sibs @ (post @ new)" using n(1) by simp
    then show "(\<exists>pre post. blocks1 = pre @ sibs @ post) \<and> listed_siblings notion q sibs"
      using k by blast
  qed
  show ?thesis
    unfolding flat_inv_def using ix ls seg old by (auto split: if_splits)
qed

lemma walk_flat_inv:
  "walk fuel notion maxB p acc r = Some (Inr acc1, r1) \<Longrightarrow> flat_inv notion acc \<Longrightarrow>
     flat_inv notion acc1"
  and walk_children_flat_inv:
  "walk_children fuel notion maxB sibs acc r = Some (Inr acc1, r1) \<Longrightarrow> flat_inv notion acc \<Longrightarrow>
     flat_inv notion acc1"
proof (induction fuel notion maxB p acc r and fuel notion maxB sibs acc r
       arbitrary: acc1 r1 and acc1 r1 rule: walk_walk_children.induct)
  case (1 notion maxBlocks parentId acc r)
  then show ?case by simp
next
  case (2 fuel notion maxBlocks parentId acc r)
  obtain y r0 where l: "listDirectChildren fuel notion parentId r = Some (y, r0)"
    using "2.prems"(1) by (auto split: option.splits)
  show ?case
  proof (cases y)
    case (Inl e)
    then show ?thesis using "2.prems"(1) l by simp
  next
    case (Inr siblingsRaw)
    show ?thesis
    proof (cases "push_siblings maxBlocks parentId (entries siblingsRaw) (blocks acc) []")
      case (Inl e)
      then show ?thesis using "2.prems"(1) l Inr by simp
    next
      case inr: (Inr pushed)
      obtain blocks1 siblings where p: "pushed = (blocks1, siblings)"
        by (cases pushed) auto
      let ?acc = "\<lparr>blocks = blocks1,
                   siblingsByParent = (parentId, siblings) # siblingsByParent acc\<rparr>"
      have wc: "walk_children fuel notion maxBlocks siblings ?acc r0 = Some (Inr acc1, r1)"
        using "2.prems"(1) l Inr inr p by simp
      have "flat_inv notion ?acc"
        using flat_inv_push [OF "2.prems"(2) l [unfolded Inr] inr [unfolded p]] .
      then show ?thesis
        using "2.IH" [OF l refl Inr inr [unfolded p] refl wc] by blast
    qed
  qed
next
  case (3 fuel notion maxBlocks acc r)
  then show ?case by simp
next
  case (4 fuel notion maxBlocks sibling rest acc r)
  show ?case
  proof (cases "has_children sibling")
    case False
    then show ?thesis using "4.prems" "4.IH"(3) by simp
  next
    case True
    obtain y r0 where w: "walk fuel notion maxBlocks (block_id sibling) acc r = Some (y, r0)"
      using "4.prems"(1) True by (auto split: option.splits)
    show ?thesis
    proof (cases y)
      case (Inl e)
      then show ?thesis using "4.prems"(1) True w by simp
    next
      case (Inr acc0)
      have wc: "walk_children fuel notion maxBlocks rest acc0 r0 = Some (Inr acc1, r1)"
        using "4.prems"(1) True w Inr by simp
      have "flat_inv notion acc0"
        using "4.IH"(1) [OF True w [unfolded Inr] "4.prems"(2)] .
      then show ?thesis
        using "4.IH"(2) [OF True w refl Inr wc] by blast
    qed
  qed
qed

lemma currentSiblingsOf_index:
  "b \<in> set (currentSiblingsOf p raw) \<Longrightarrow>
     sibling_index b < length raw \<and> raw_id (raw ! sibling_index b) = Some (block_id b) \<and>
     parent_id b = p"
  by (auto simp: currentSiblingsOf_def entries_def toFlatBlock_def set_zip
      split: option.splits if_splits)

lemma erase_order_fields:
  "erase_order b = erase_order c \<Longrightarrow>
     sibling_index b = sibling_index c \<and> block_id b = block_id c \<and> parent_id b = parent_id c"
proof -
  assume e: "erase_order b = erase_order c"
  have "sibling_index (erase_order b) = sibling_index (erase_order c)"
       "block_id (erase_order b) = block_id (erase_order c)"
       "parent_id (erase_order b) = parent_id (erase_order c)"
    using e by simp_all
  then show ?thesis by (simp add: erase_order_def)
qed

subsection \<open>Deletion that fails partway\<close>

lemma delete_each_fails:
  "delete_each notion bs r = (Inl e, r1) \<Longrightarrow>
     \<exists>k<length bs. \<exists>rk.
        delete_each notion (take k bs) r = (Inr (), rk) \<and>
        call_delete notion (block_id (bs ! k)) rk = (Inl e, r1)"
proof (induction bs arbitrary: r)
  case Nil
  then show ?case by simp
next
  case (Cons b bs)
  obtain y r0 where c: "call_delete notion (block_id b) r = (y, r0)"
    by (cases "call_delete notion (block_id b) r") auto
  show ?case
  proof (cases y)
    case (Inl e0)
    then have "e0 = e" "r0 = r1" using Cons.prems c by simp_all
    then show ?thesis
      using c Inl by (intro exI [of _ 0]) simp
  next
    case (Inr u)
    then have "delete_each notion bs r0 = (Inl e, r1)"
      using Cons.prems c by simp
    from Cons.IH [OF this] obtain k rk where
      k: "k < length bs" "delete_each notion (take k bs) r0 = (Inr (), rk)"
         "call_delete notion (block_id (bs ! k)) rk = (Inl e, r1)" by blast
    show ?thesis
      using k c Inr by (intro exI [of _ "Suc k"]) simp
  qed
qed

lemma delete_each_calls:
  "delete_each notion bs r = (Inr (), r1) \<Longrightarrow>
     calls r1 = calls r @ map (\<lambda>b. DeleteBlock (block_id b)) bs"
proof (induction bs arbitrary: r)
  case Nil
  then show ?case by simp
next
  case (Cons b bs)
  obtain y r0 where c: "call_delete notion (block_id b) r = (y, r0)"
    by (cases "call_delete notion (block_id b) r") auto
  have c0: "calls r0 = calls r @ [DeleteBlock (block_id b)]"
    using c by (auto simp: call_delete_def Let_def)
  show ?case
  proof (cases y)
    case (Inl e0)
    then show ?thesis using Cons.prems c by simp
  next
    case (Inr u)
    then have "delete_each notion bs r0 = (Inr (), r1)"
      using Cons.prems c by simp
    from Cons.IH [OF this] show ?thesis using c0 by simp
  qed
qed

text \<open>
  C9, as the code has it. When insertion has succeeded and the deletion loop fails, the
  error of \<open>replaceBlockRange\<close> is the very error \<open>deleteBlock\<close> threw for the failing
  block \<open>k\<close>, passed on unchanged; the \<open>k\<close> planned blocks before it have been deleted, and
  the remote service has seen exactly these \<open>k + 1\<close> delete calls after the insertion.
  The error is not given the ids of the blocks already deleted.
\<close>

theorem partial_delete_raw_error:
  assumes flat: "flattenScopeBlocks fuel notion (scopeId args) (scanMaxBlocks args) r
                   = Some (Inr flat, r1)"
    and plan: "planRange S flat args = Inr (plan, siblings, blocksToDelete)"
    and wet: "\<not> dryRun args"
    and relist: "listDirectChildren fuel notion (plan_parent_id plan) r1 = Some (Inr cur, r2)"
    and same: "siblingsFingerprint (currentSiblingsOf (plan_parent_id plan) cur)
                 = siblingsFingerprint siblings"
    and some: "length (newBlocks args) > 0"
    and ins: "insertBlocks notion (plan_parent_id plan) (newBlocks args) (insert_position plan)
                False r2 = (Inr insertResult, r3)"
    and del: "delete_each notion blocksToDelete r3 = (Inl e, r4)"
  shows "replaceBlockRange S fuel notion args r = Some (Inl e, r4)
       \<and> (\<exists>k<length blocksToDelete. \<exists>rk.
             delete_each notion (take k blocksToDelete) r3 = (Inr (), rk) \<and>
             fst (deleteBlock notion (block_id (blocksToDelete ! k)) (service rk)) = Inl e \<and>
             calls r4 = calls r3 @
               map (\<lambda>b. DeleteBlock (block_id b)) (take (Suc k) blocksToDelete))"
proof -
  have res: "replaceBlockRange S fuel notion args r = Some (Inl e, r4)"
    using flat plan wet relist same some ins del
    by (simp add: replaceBlockRange_def Let_def)
  from delete_each_fails [OF del] obtain k rk where
    k: "k < length blocksToDelete"
       "delete_each notion (take k blocksToDelete) r3 = (Inr (), rk)"
       "call_delete notion (block_id (blocksToDelete ! k)) rk = (Inl e, r4)" by blast
  have thrown: "fst (deleteBlock notion (block_id (blocksToDelete ! k)) (service rk)) = Inl e"
    using k(3) by (auto simp: call_delete_def Let_def)
  have "calls rk = calls r3 @ map (\<lambda>b. DeleteBlock (block_id b)) (take k blocksToDelete)"
    using delete_each_calls [OF k(2)] .
  moreover have "calls r4 = calls rk @ [DeleteBlock (block_id (blocksToDelete ! k))]"
    using k(3) by (auto simp: call_delete_def Let_def)
  ultimately have "calls r4 = calls r3 @
       map (\<lambda>b. DeleteBlock (block_id b)) (take (Suc k) blocksToDelete)"
    using k(1) by (simp add: take_Suc_conv_app_nth)
  then show ?thesis
    using res k(1,2) thrown by blast
qed

subsection \<open>The order of the endpoints\<close>

lemma insert_chunks_calls:
  "insert_chunks notion p chunks pos ids r = (x, r1) \<Longrightarrow>
     \<exists>cs. calls r1 = calls r @ cs \<and> list_all is_append_call cs \<and>
          (chunks \<noteq> [] \<longrightarrow> cs \<noteq> [] \<and> hd cs = AppendChildren p (hd chunks) pos)"
proof (induction chunks arbitrary: pos ids r)
  case Nil
  then show ?case by simp
next
  case (Cons c chunks)
  obtain y r0 where a: "call_append notion p c pos r = (y, r0)"
    by (cases "call_append notion p c pos r") auto
  have c0: "calls r0 = calls r @ [AppendChildren p c pos]"
    using a by (auto simp: call_append_def Let_def)
  show ?case
  proof (cases y)
    case (Inl e)
    then have "r1 = r0" using Cons.prems a by simp
    then show ?thesis using c0 by simp
  next
    case (Inr res)
    then have "\<exists>pos' ids'. insert_chunks notion p chunks pos' ids' r0 = (x, r1)"
      using Cons.prems a by (auto simp: Let_def)
    then obtain pos' ids' where "insert_chunks notion p chunks pos' ids' r0 = (x, r1)" by blast
    from Cons.IH [OF this] obtain cs where
      "calls r1 = calls r0 @ cs" "list_all is_append_call cs" by blast
    then show ?thesis using c0 by simp
  qed
qed

lemma chunk_nonempty: "xs \<noteq> [] \<Longrightarrow> 0 < n \<Longrightarrow> chunk xs n \<noteq> [] \<and> hd (chunk xs n) = take n xs"
  by (subst chunk.simps, simp)+

lemma insertBlocks_calls:
  assumes "insertBlocks notion p bs pos False r = (x, r1)" and "bs \<noteq> []"
  shows "\<exists>cs. calls r1 = calls r @ AppendChildren p (take 100 bs) pos # cs \<and>
              list_all is_append_call cs"
proof -
  obtain y where ic: "insert_chunks notion p (chunk bs 100) pos [] r = (y, r1)"
    using assms by (auto simp: insertBlocks_def split: prod.splits sum.splits)
  from insert_chunks_calls [OF ic] obtain cs where
    cs: "calls r1 = calls r @ cs" "list_all is_append_call cs"
        "cs \<noteq> [] \<and> hd cs = AppendChildren p (hd (chunk bs 100)) pos"
    using chunk_nonempty [OF assms(2), of 100] by auto
  then obtain c rest where "cs = c # rest" by (cases cs) auto
  then show ?thesis
    using cs chunk_nonempty [OF assms(2), of 100] by auto
qed

text \<open>
  C7, as the code has it. For endpoints that resolve to siblings of one parent: when the
  sibling index of the start exceeds that of the end as resolved, before the inclusive or
  exclusive adjustments, \<open>replaceBlockRange\<close> rejects the request with \<open>invalid_input\<close>.
  When the resolved indexes are in order and the adjusted start \<open>replaceFrom\<close> exceeds the
  adjusted end \<open>replaceTo\<close>, the request is not rejected for that: if \<open>replaceFrom\<close> is
  not 0 and the sibling list recorded for the parent has no position \<open>replaceFrom - 1\<close>
  (blocks without an id are not recorded), reading \<open>siblings[replaceFrom - 1].id\<close> throws
  a \<open>TypeError\<close>; otherwise the plan deletes nothing and places the insertion at the
  start of the parent when \<open>replaceFrom\<close> is 0 and after the recorded sibling at position
  \<open>replaceFrom - 1\<close> when it is not. A dry run returns that plan; a run whose re-read
  fingerprint is unchanged and whose insertion of at least one block succeeds returns
  success with no deletion, and all it has asked of the remote service after the re-read
  is to append children, first at the planned position.
\<close>

theorem start_after_end_rejected:
  assumes flat: "flattenScopeBlocks fuel notion (scopeId args) (scanMaxBlocks args) r
                   = Some (Inr flat, r1)"
    and st: "resolveSelectorStrict S (blocks flat) (startSelector args) ''start-selector-json''
               = Inr st"
    and en: "resolveSelectorStrict S (blocks flat) (endSelector args) ''end-selector-json''
               = Inr en"
    and same: "parent_id (res_selected st) = parent_id (res_selected en)"
  shows "(sibling_index (res_selected st) > sibling_index (res_selected en) \<longrightarrow>
            replaceBlockRange S fuel notion args r = Some (Inl start_after_end_error, r1) \<and>
            err_code start_after_end_error = Some ''invalid_input'')
       \<and> (sibling_index (res_selected st) \<le> sibling_index (res_selected en) \<and>
          adjusted_start args (res_selected st) > adjusted_end args (res_selected en) \<longrightarrow>
            (adjusted_start args (res_selected st) \<noteq> 0 \<and>
             length (recorded_siblings flat (parent_id (res_selected st)))
               \<le> nat (adjusted_start args (res_selected st) - 1) \<longrightarrow>
               replaceBlockRange S fuel notion args r = Some (Inl type_error, r1))
          \<and> (adjusted_start args (res_selected st) = 0 \<or>
             nat (adjusted_start args (res_selected st) - 1)
               < length (recorded_siblings flat (parent_id (res_selected st))) \<longrightarrow>
               (\<exists>plan.
                  planRange S flat args
                    = Inr (plan, recorded_siblings flat (parent_id (res_selected st)), [])
                \<and> plan_parent_id plan = parent_id (res_selected st)
                \<and> delete_ids plan = [] \<and> delete_count plan = 0
                \<and> insert_position plan =
                    (if adjusted_start args (res_selected st) = 0 then PositionStart
                     else AfterBlock (block_id
                            (recorded_siblings flat (parent_id (res_selected st))
                               ! nat (adjusted_start args (res_selected st) - 1))))
                \<and> (dryRun args \<longrightarrow>
                     replaceBlockRange S fuel notion args r
                       = Some (Inr (DryRunPlan plan (block_types (newBlocks args))), r1))
                \<and> (\<forall>cur r2 ins r3.
                     \<not> dryRun args \<and>
                     listDirectChildren fuel notion (plan_parent_id plan) r1
                       = Some (Inr cur, r2) \<and>
                     siblingsFingerprint (currentSiblingsOf (plan_parent_id plan) cur)
                       = siblingsFingerprint
                           (recorded_siblings flat (parent_id (res_selected st))) \<and>
                     newBlocks args \<noteq> [] \<and>
                     insertBlocks notion (plan_parent_id plan) (newBlocks args)
                       (insert_position plan) False r2 = (Inr ins, r3) \<longrightarrow>
                       replaceBlockRange S fuel notion args r
                         = Some (Inr (Replaced plan
                                   (case ins of Inserted p pos n ids \<Rightarrow> n
                                    | WouldInsert p pos n ts \<Rightarrow> 0)
                                   (case ins of Inserted p pos n ids \<Rightarrow> ids
                                    | WouldInsert p pos n ts \<Rightarrow> [])
                                   0), r3)
                     \<and> (\<exists>cs. calls r3 = calls r2 @
                                 AppendChildren (plan_parent_id plan) (take 100 (newBlocks args))
                                   (insert_position plan) # cs \<and>
                               list_all is_append_call cs)))))"
proof (intro conjI impI)
  assume gt: "sibling_index (res_selected en) < sibling_index (res_selected st)"
  have "planRange S flat args = Inl start_after_end_error"
    using st en same gt by (simp add: planRange_def Let_def)
  then show "replaceBlockRange S fuel notion args r = Some (Inl start_after_end_error, r1)"
    using flat by (simp add: replaceBlockRange_def)
  show "err_code start_after_end_error = Some ''invalid_input''"
    by (simp add: start_after_end_error_def CliError_def)
next
  let ?from = "adjusted_start args (res_selected st)"
  let ?sibs = "recorded_siblings flat (parent_id (res_selected st))"
  assume h: "sibling_index (res_selected st) \<le> sibling_index (res_selected en) \<and>
          adjusted_start args (res_selected st) > adjusted_end args (res_selected en)"
  assume out: "?from \<noteq> 0 \<and> length ?sibs \<le> nat (?from - 1)"
  have "planRange S flat args = Inl type_error"
    using st en same h out
    by (simp add: planRange_def Let_def adjusted_start_def adjusted_end_def
        recorded_siblings_def)
  then show "replaceBlockRange S fuel notion args r = Some (Inl type_error, r1)"
    using flat by (simp add: replaceBlockRange_def)
next
  let ?from = "adjusted_start args (res_selected st)"
  let ?sibs = "recorded_siblings flat (parent_id (res_selected st))"
  let ?pos = "if ?from = 0 then PositionStart
              else AfterBlock (block_id (?sibs ! nat (?from - 1)))"
  let ?plan = "\<lparr>plan_scope_id = scopeId args, plan_parent_id = parent_id (res_selected st),
                 plan_start = res_selected st, plan_end = res_selected en,
                 inclusive_start = inclusiveStart args, inclusive_end = inclusiveEnd args,
                 delete_ids = [], delete_count = 0,
                 insert_position = ?pos, insert_count = length (newBlocks args)\<rparr>"
  assume h: "sibling_index (res_selected st) \<le> sibling_index (res_selected en) \<and>
          adjusted_start args (res_selected st) > adjusted_end args (res_selected en)"
  assume inr: "?from = 0 \<or> nat (?from - 1) < length ?sibs"
  have p: "planRange S flat args = Inr (?plan, ?sibs, [])"
    using st en same h inr
    by (auto simp: planRange_def Let_def adjusted_start_def adjusted_end_def
        recorded_siblings_def)
  have dry: "dryRun args \<longrightarrow>
       replaceBlockRange S fuel notion args r
         = Some (Inr (DryRunPlan ?plan (block_types (newBlocks args))), r1)"
    using flat p by (simp add: replaceBlockRange_def)
  have wet: "\<forall>cur r2 ins r3.
       \<not> dryRun args \<and>
       listDirectChildren fuel notion (plan_parent_id ?plan) r1 = Some (Inr cur, r2) \<and>
       siblingsFingerprint (currentSiblingsOf (plan_parent_id ?plan) cur)
         = siblingsFingerprint ?sibs \<and>
       newBlocks args \<noteq> [] \<and>
       insertBlocks notion (plan_parent_id ?plan) (newBlocks args)
         (insert_position ?plan) False r2 = (Inr ins, r3) \<longrightarrow>
         replaceBlockRange S fuel notion args r
           = Some (Inr (Replaced ?plan
                     (case ins of Inserted p pos n ids \<Rightarrow> n | WouldInsert p pos n ts \<Rightarrow> 0)
                     (case ins of Inserted p pos n ids \<Rightarrow> ids | WouldInsert p pos n ts \<Rightarrow> [])
                     0), r3)
       \<and> (\<exists>cs. calls r3 = calls r2 @
                   AppendChildren (plan_parent_id ?plan) (take 100 (newBlocks args))
                     (insert_position ?plan) # cs \<and>
                 list_all is_append_call cs)"
  proof (intro allI impI)
    fix cur r2 ins r3
    assume w: "\<not> dryRun args \<and>
       listDirectChildren fuel notion (plan_parent_id ?plan) r1 = Some (Inr cur, r2) \<and>
       siblingsFingerprint (currentSiblingsOf (plan_parent_id ?plan) cur)
         = siblingsFingerprint ?sibs \<and>
       newBlocks args \<noteq> [] \<and>
       insertBlocks notion (plan_parent_id ?plan) (newBlocks args)
         (insert_position ?plan) False r2 = (Inr ins, r3)"
    have res: "replaceBlockRange S fuel notion args r
           = Some (Inr (Replaced ?plan
                     (case ins of Inserted p pos n ids \<Rightarrow> n | WouldInsert p pos n ts \<Rightarrow> 0)
                     (case ins of Inserted p pos n ids \<Rightarrow> ids | WouldInsert p pos n ts \<Rightarrow> [])
                     0), r3)"
      using flat p w by (simp add: replaceBlockRange_def Let_def)
    have "\<exists>cs. calls r3 = calls r2 @
                   AppendChildren (plan_parent_id ?plan) (take 100 (newBlocks args))
                     (insert_position ?plan) # cs \<and>
                 list_all is_append_call cs"
      using insertBlocks_calls [of notion "plan_parent_id ?plan" "newBlocks args"
          "insert_position ?plan" r2 "Inr ins" r3] w by blast
    then show "replaceBlockRange S fuel notion args r
           = Some (Inr (Replaced ?plan
                     (case ins of Inserted p pos n ids \<Rightarrow> n | WouldInsert p pos n ts \<Rightarrow> 0)
                     (case ins of Inserted p pos n ids \<Rightarrow> ids | WouldInsert p pos n ts \<Rightarrow> [])
                     0), r3)
       \<and> (\<exists>cs. calls r3 = calls r2 @
                   AppendChildren (plan_parent_id ?plan) (take 100 (newBlocks args))
                     (insert_position ?plan) # cs \<and>
                 list_all is_append_call cs)"
      using res by blast
  qed
  show "\<exists>plan.
                  planRange S flat args
                    = Inr (plan, recorded_siblings flat (parent_id (res_selected st)), [])
                \<and> plan_parent_id plan = parent_id (res_selected st)
                \<and> delete_ids plan = [] \<and> delete_count plan = 0
                \<and> insert_position plan =
                    (if adjusted_start args (res_selected st) = 0 then PositionStart
                     else AfterBlock (block_id
                            (recorded_siblings flat (parent_id (res_selected st))
                               ! nat (adjusted_start args (res_selected st) - 1))))
                \<and> (dryRun args \<longrightarrow>
                     replaceBlockRange S fuel notion args r
                       = Some (Inr (DryRunPlan plan (block_types (newBlocks args))), r1))
                \<and> (\<forall>cur r2 ins r3.
                     \<not> dryRun args \<and>
                     listDirectChildren fuel notion (plan_parent_id plan) r1
                       = Some (Inr cur, r2) \<and>
                     siblingsFingerprint (currentSiblingsOf (plan_parent_id plan) cur)
                       = siblingsFingerprint
                           (recorded_siblings flat (parent_id (res_selected st))) \<and>
                     newBlocks args \<noteq> [] \<and>
                     insertBlocks notion (plan_parent_id plan) (newBlocks args)
                       (insert_position plan) False r2 = (Inr ins, r3) \<longrightarrow>
                       replaceBlockRange S fuel notion args r
                         = Some (Inr (Replaced plan
                                   (case ins of Inserted p pos n ids \<Rightarrow> n
                                    | WouldInsert p pos n ts \<Rightarrow> 0)
                                   (case ins of Inserted p pos n ids \<Rightarrow> ids
                                    | WouldInsert p pos n ts \<Rightarrow> [])
                                   0), r3)
                     \<and> (\<exists>cs. calls r3 = calls r2 @
                                 AppendChildren (plan_parent_id plan) (take 100 (newBlocks args))
                                   (insert_position plan) # cs \<and>
                               list_all is_append_call cs))"
    apply (rule exI [of _ ?plan])
    using p dry wet by simp
qed


subsection \<open>The flattened list\<close>

lemma erase_order_has_children:
  "erase_order b = erase_order c \<Longrightarrow> has_children b = has_children c"
proof -
  assume "erase_order b = erase_order c"
  then have "has_children (erase_order b) = has_children (erase_order c)" by simp
  then show ?thesis by (simp add: erase_order_def)
qed

lemma subtrees_of_cong:
  "map erase_order xs = map erase_order ys \<Longrightarrow> subtrees_of n tree xs = subtrees_of n tree ys"
proof (induction xs arbitrary: ys)
  case Nil
  then show ?case by simp
next
  case (Cons x xs)
  then obtain y ys' where ys: "ys = y # ys'" by (cases ys) auto
  have e: "erase_order x = erase_order y" and r: "map erase_order xs = map erase_order ys'"
    using Cons.prems ys by simp_all
  show ?case
    using Cons.IH [OF r] erase_order_fields [OF e] erase_order_has_children [OF e] ys
    by simp
qed

lemma walk_layout:
  "walk fuel notion maxB p acc r = Some (Inr acc1, r1) \<Longrightarrow> serves notion tree \<Longrightarrow>
     map erase_order (blocks acc1)
       = map erase_order (blocks acc) @ map erase_order (siblings_first fuel tree p)"
  and walk_children_layout:
  "walk_children fuel notion maxB sibs acc r = Some (Inr acc1, r1) \<Longrightarrow> serves notion tree \<Longrightarrow>
     map erase_order (blocks acc1)
       = map erase_order (blocks acc) @ map erase_order (subtrees_of fuel tree sibs)"
proof (induction fuel notion maxB p acc r and fuel notion maxB sibs acc r
       arbitrary: acc1 r1 and acc1 r1 rule: walk_walk_children.induct)
  case (1 notion maxBlocks parentId acc r)
  then show ?case by simp
next
  case (2 fuel notion maxBlocks parentId acc r)
  obtain y r0 where l: "listDirectChildren fuel notion parentId r = Some (y, r0)"
    using "2.prems"(1) by (auto split: option.splits)
  have y: "y = Inr (tree parentId)"
  proof (cases y)
    case (Inl e)
    then show ?thesis using "2.prems"(1) l by simp
  next
    case (Inr raw)
    then show ?thesis using "2.prems"(2) l unfolding serves_def by blast
  qed
  show ?case
  proof (cases "push_siblings maxBlocks parentId (entries (tree parentId)) (blocks acc) []")
    case (Inl e)
    then show ?thesis using "2.prems"(1) l y by simp
  next
    case inr: (Inr pushed)
    obtain blocks1 siblings where p: "pushed = (blocks1, siblings)"
      by (cases pushed) auto
    let ?acc = "\<lparr>blocks = blocks1,
                 siblingsByParent = (parentId, siblings) # siblingsByParent acc\<rparr>"
    have wc: "walk_children fuel notion maxBlocks siblings ?acc r0 = Some (Inr acc1, r1)"
      using "2.prems"(1) l y inr p by simp
    from push_siblings_spec [OF inr [unfolded p]] obtain new where
      n: "blocks1 = blocks acc @ new" "siblings = [] @ new"
         "map erase_order new = map erase_order (currentSiblingsOf parentId (tree parentId))"
      unfolding currentSiblingsOf_def by blast
    have sn: "siblings = new" using n(2) by simp
    have ih: "map erase_order (blocks acc1)
                = map erase_order (blocks ?acc) @ map erase_order (subtrees_of fuel tree siblings)"
      using "2.IH" [OF l refl y inr [unfolded p] refl wc "2.prems"(2)] .
    have sub: "subtrees_of fuel tree siblings
                 = subtrees_of fuel tree (currentSiblingsOf parentId (tree parentId))"
      using n(3) sn by (intro subtrees_of_cong) simp
    show ?thesis
      using ih n(1,3) sub by simp
  qed
next
  case (3 fuel notion maxBlocks acc r)
  then show ?case by simp
next
  case (4 fuel notion maxBlocks sibling rest acc r)
  show ?case
  proof (cases "has_children sibling")
    case False
    then show ?thesis using "4.prems" "4.IH"(3) by simp
  next
    case True
    obtain y r0 where w: "walk fuel notion maxBlocks (block_id sibling) acc r = Some (y, r0)"
      using "4.prems"(1) True by (auto split: option.splits)
    show ?thesis
    proof (cases y)
      case (Inl e)
      then show ?thesis using "4.prems"(1) True w by simp
    next
      case (Inr acc0)
      have wc: "walk_children fuel notion maxBlocks rest acc0 r0 = Some (Inr acc1, r1)"
        using "4.prems"(1) True w Inr by simp
      have a: "map erase_order (blocks acc0)
                 = map erase_order (blocks acc)
                   @ map erase_order (siblings_first fuel tree (block_id sibling))"
        using "4.IH"(1) [OF True w [unfolded Inr] "4.prems"(2)] .
      have b: "map erase_order (blocks acc1)
                 = map erase_order (blocks acc0) @ map erase_order (subtrees_of fuel tree rest)"
        using "4.IH"(2) [OF True w refl Inr wc "4.prems"(2)] .
      show ?thesis using a b True by simp
    qed
  qed
qed

lemma layout_sibling_index:
  "b \<in> set (siblings_first n tree p) \<Longrightarrow>
     sibling_index b < length (tree (parent_id b)) \<and>
     raw_id (tree (parent_id b) ! sibling_index b) = Some (block_id b)"
  and subtrees_sibling_index:
  "b \<in> set (subtrees_of n tree sibs) \<Longrightarrow>
     sibling_index b < length (tree (parent_id b)) \<and>
     raw_id (tree (parent_id b) ! sibling_index b) = Some (block_id b)"
proof (induction n tree p and n tree sibs rule: siblings_first_subtrees_of.induct)
  case (1 tree parentId)
  then show ?case by simp
next
  case (2 fuel tree parentId)
  from "2.prems" consider
      "b \<in> set (currentSiblingsOf parentId (tree parentId))"
    | "b \<in> set (subtrees_of fuel tree (currentSiblingsOf parentId (tree parentId)))"
    by auto
  then show ?case
  proof cases
    case 1
    then show ?thesis using currentSiblingsOf_index [OF 1] by simp
  next
    case 2
    then show ?thesis using "2.IH" by blast
  qed
next
  case (3 fuel tree)
  then show ?case by simp
next
  case (4 fuel tree sibling rest)
  then show ?case by (auto split: if_splits)
qed

text \<open>
  C8, as the code has it. Let the remote service present a block tree and let the
  flattener return. Then the flattened list is laid out siblings first: all direct
  children of the scope in listing order, followed, for each of them that has children
  and in the same order, by the children of that child laid out in the same way, so that
  the subtree of a block comes after all siblings of the block and not right after the
  block; in particular the flattened list begins with all direct children of the scope.
  \<open>order_index\<close> of every flattened block is its position in the flattened list;
  \<open>sibling_index\<close> of every flattened block is its position in the listing of the direct
  children of its parent. The siblings recorded for a parent are consecutive in the
  flattened list and are the children of that parent in listing order.
\<close>

theorem flatten_order:
  assumes tree: "serves notion tree"
    and flat: "flattenScopeBlocks fuel notion scope maxB r = Some (Inr flat, r1)"
  shows "map erase_order (blocks flat) = map erase_order (siblings_first fuel tree scope)
       \<and> map erase_order (take (length (currentSiblingsOf scope (tree scope))) (blocks flat))
           = map erase_order (currentSiblingsOf scope (tree scope))
       \<and> (\<forall>i<length (blocks flat). order_index (blocks flat ! i) = i)
       \<and> (\<forall>b\<in>set (blocks flat).
             sibling_index b < length (tree (parent_id b)) \<and>
             raw_id (tree (parent_id b) ! sibling_index b) = Some (block_id b))
       \<and> (\<forall>p sibs. map_of (siblingsByParent flat) p = Some sibs \<longrightarrow>
             (\<exists>pre post. blocks flat = pre @ sibs @ post) \<and>
             map erase_order sibs = map erase_order (currentSiblingsOf p (tree p)))"
proof -
  let ?kids = "currentSiblingsOf scope (tree scope)"
  have a: "map erase_order (blocks flat) = map erase_order (siblings_first fuel tree scope)"
    using walk_layout [OF flat [unfolded flattenScopeBlocks_def] tree] by simp
  obtain n where n: "fuel = Suc n"
    using flat by (cases fuel) (simp_all add: flattenScopeBlocks_def)
  have "map erase_order (take (length ?kids) (blocks flat))
          = take (length ?kids) (map erase_order (blocks flat))"
    by (simp add: take_map)
  also have "\<dots> = take (length ?kids) (map erase_order (?kids @ subtrees_of n tree ?kids))"
    using a n by simp
  also have "\<dots> = map erase_order ?kids"
    by simp
  finally have pre: "map erase_order (take (length ?kids) (blocks flat)) = map erase_order ?kids" .
  have "flat_inv notion \<lparr>blocks = [], siblingsByParent = []\<rparr>"
    by (simp add: flat_inv_def indexed_def)
  then have inv: "flat_inv notion flat"
    using flat walk_flat_inv unfolding flattenScopeBlocks_def by blast
  have ix: "\<forall>i<length (blocks flat). order_index (blocks flat ! i) = i"
    using inv by (simp add: flat_inv_def indexed_def)
  have si: "\<forall>b\<in>set (blocks flat).
             sibling_index b < length (tree (parent_id b)) \<and>
             raw_id (tree (parent_id b) ! sibling_index b) = Some (block_id b)"
  proof
    fix b assume "b \<in> set (blocks flat)"
    then have "erase_order b \<in> set (map erase_order (siblings_first fuel tree scope))"
      using a by (metis image_eqI set_map)
    then obtain c where c: "c \<in> set (siblings_first fuel tree scope)"
        "erase_order b = erase_order c"
      by auto
    show "sibling_index b < length (tree (parent_id b)) \<and>
             raw_id (tree (parent_id b) ! sibling_index b) = Some (block_id b)"
      using layout_sibling_index [OF c(1)] erase_order_fields [OF c(2)] by simp
  qed
  have sb: "\<forall>p sibs. map_of (siblingsByParent flat) p = Some sibs \<longrightarrow>
             (\<exists>pre post. blocks flat = pre @ sibs @ post) \<and>
             map erase_order sibs = map erase_order (currentSiblingsOf p (tree p))"
  proof (intro allI impI)
    fix p sibs assume m: "map_of (siblingsByParent flat) p = Some sibs"
    have seg: "\<exists>pre post. blocks flat = pre @ sibs @ post"
      using inv m unfolding flat_inv_def by blast
    have "listed_siblings notion p sibs"
      using inv m unfolding flat_inv_def by blast
    then obtain raw f rA rB where
      l: "listDirectChildren f notion p rA = Some (Inr raw, rB)"
      and e: "map erase_order sibs = map erase_order (currentSiblingsOf p raw)"
      unfolding listed_siblings_def by blast
    have "raw = tree p"
      using tree l unfolding serves_def by blast
    then show "(\<exists>pre post. blocks flat = pre @ sibs @ post) \<and>
             map erase_order sibs = map erase_order (currentSiblingsOf p (tree p))"
      using seg e by simp
  qed
  show ?thesis using a pre ix si sb by blast
qed

section \<open>Concrete runs of the block functions\<close>

lemma flatten_nested:
  "flattenScopeBlocks 3 (scripted nested_tree []) ''page'' 5000 sim0
     = Some (Inr nested_flat, after_listings [''page'', ''a''])"
  by code_simp

lemma flatten_flat:
  "flattenScopeBlocks 3 (scripted flat_tree []) ''page'' 5000 sim0
     = Some (Inr abc_flat, after_listings [''page''])"
  by code_simp

lemma flatten_flat_failing_b:
  "flattenScopeBlocks 3 (scripted flat_tree [''b'']) ''page'' 5000 sim0
     = Some (Inr abc_flat, after_listings [''page''])"
  by code_simp

lemma flatten_edited:
  "flattenScopeBlocks 3 (scripted edited_tree []) ''page'' 5000 sim0
     = Some (Inr abc_flat, after_listings [''page''])"
  by code_simp

lemma concat_map_Some:
  "concat (map ((\<lambda>raw. case raw of Some b \<Rightarrow> [b] | None \<Rightarrow> []) \<circ> Some) xs) = xs"
  by (induction xs) simp_all

lemma scripted_serves:
  "\<forall>n p. tree n p = tree 0 p \<Longrightarrow> serves (scripted tree failing) (tree 0)"
  unfolding serves_def
proof (intro allI impI)
  fix fuel p r raw r1
  assume same: "\<forall>n p. tree n p = tree 0 p"
    and l: "listDirectChildren fuel (scripted tree failing) p r = Some (Inr raw, r1)"
  have t: "tree (listed (service r)) p = tree 0 p"
    using same by blast
  show "raw = tree 0 p"
  proof (cases fuel)
    case 0
    then show ?thesis using l by (simp add: listDirectChildren_def)
  next
    case (Suc n)
    then show ?thesis
      using l
      by (auto simp: listDirectChildren_def call_list_def scripted_def Let_def t
          concat_map_Some)
  qed
qed

lemma nested_serves: "serves (scripted nested_tree []) (nested_tree 0)"
  by (rule scripted_serves) (simp add: nested_tree_def)

text \<open>
  The flattened nested page is laid out siblings first and carries the order indexes
  0, 1, 2.
\<close>

theorem flatten_order_witness:
  "flattenScopeBlocks 3 (scripted nested_tree []) ''page'' 5000 sim0
     = Some (Inr nested_flat, after_listings [''page'', ''a''])
 \<and> map erase_order (blocks nested_flat)
     = map erase_order (siblings_first 3 (nested_tree 0) ''page'')
 \<and> map order_index (blocks nested_flat) = [0, 1, 2]"
proof -
  have len: "length (blocks nested_flat) = 3" by (simp add: nested_flat_def)
  note t = flatten_order [OF nested_serves flatten_nested]
  have l: "map erase_order (blocks nested_flat)
     = map erase_order (siblings_first 3 (nested_tree 0) ''page'')"
    using t by blast
  have "\<forall>i<length (blocks nested_flat). order_index (blocks nested_flat ! i) = i"
    using t by blast
  then have "map order_index (blocks nested_flat) = [0..<length (blocks nested_flat)]"
    by (intro nth_equalityI) simp_all
  then have m: "map order_index (blocks nested_flat) = [0, 1, 2]"
    using len by (simp add: upt_rec)
  show ?thesis
    using flatten_nested l m by blast
qed


text \<open>
  C8 as stated fails on the page with blocks \<open>a\<close> and \<open>b\<close>, where \<open>a\<close> has the child
  \<open>a1\<close>: a pre-order would number \<open>a\<close>, \<open>a1\<close>, \<open>b\<close>, but the flattener numbers \<open>a\<close> 0,
  \<open>b\<close> 1 and \<open>a1\<close> 2, so the later sibling \<open>b\<close> comes before the subtree of \<open>a\<close>.
\<close>

theorem flatten_not_preorder_counterexample:
  "flattenScopeBlocks 3 (scripted nested_tree []) ''page'' 5000 sim0
     = Some (Inr nested_flat, after_listings [''page'', ''a''])
 \<and> map block_id (blocks nested_flat) = [''a'', ''b'', ''a1'']
 \<and> map parent_id (blocks nested_flat) = [''page'', ''page'', ''a'']
 \<and> map order_index (blocks nested_flat) = [0, 1, 2]
 \<and> preorder_spec 3 (nested_tree 0) ''page'' = [''a'', ''a1'', ''b'']
 \<and> map block_id (blocks nested_flat) \<noteq> preorder_spec 3 (nested_tree 0) ''page''"
proof -
  have p: "preorder_spec 3 (nested_tree 0) ''page'' = [''a'', ''a1'', ''b'']"
    by code_simp
  show ?thesis
    unfolding p by (simp add: flatten_nested nested_flat_def toFlatBlock_def)
qed

lemma normalize_fifth:
  "normalizeSelector fifth_from_end ''selector-json''
     = Inr \<lparr>n_type = None, n_text_contains = None, n_parent_id = None, n_from = FromEnd,
            n_nth = Some 5\<rparr>"
  by (simp add: normalizeSelector_def fifth_from_end_def)

lemma normalize_any:
  "normalizeSelector any_block ''selector-json''
     = Inr \<lparr>n_type = None, n_text_contains = None, n_parent_id = None, n_from = FromStart,
            n_nth = None\<rparr>"
  by (simp add: normalizeSelector_def any_block_def)

text \<open>
  On the page \<open>a, b, c\<close> the fifth block from the end is \<open>not_found\<close>, and the selector
  without predicate and without \<open>nth\<close> is ambiguous.
\<close>

theorem selector_resolution_witness:
  "err_code (projl (fst (the
      (selectBlocks ascii_strings 3 (scripted flat_tree []) ''page'' fifth_from_end 5000 sim0))))
     = Some ''not_found''
 \<and> sel_ambiguous (projr (fst (the
      (selectBlocks ascii_strings 3 (scripted flat_tree []) ''page'' any_block 5000 sim0))))
 \<and> sel_selected (projr (fst (the
      (selectBlocks ascii_strings 3 (scripted flat_tree []) ''page'' any_block 5000 sim0)))) = None"
proof -
  let ?n5 = "\<lparr>n_type = None, n_text_contains = None, n_parent_id = None, n_from = FromEnd,
            n_nth = Some 5\<rparr>"
  let ?n0 = "\<lparr>n_type = None, n_text_contains = None, n_parent_id = None, n_from = FromStart,
            n_nth = None\<rparr>"
  have h5: "n_nth ?n5 = Some 5 \<and>
            int (length (filter (\<lambda>b. matchesSelector ascii_strings b ?n5) (blocks abc_flat))) < 5"
    by (simp add: abc_flat_def abc_blocks_def matchesSelector_def)
  have h0: "n_nth ?n0 = None \<and>
            length (filter (\<lambda>b. matchesSelector ascii_strings b ?n0) (blocks abc_flat)) > 1"
    by (simp add: abc_flat_def abc_blocks_def matchesSelector_def)
  have a: "\<exists>e. selectBlocks ascii_strings 3 (scripted flat_tree []) ''page'' fifth_from_end 5000 sim0
              = Some (Inl e, after_listings [''page'']) \<and> err_code e = Some ''not_found''"
    using selector_resolution [OF normalize_fifth flatten_flat] h5 by blast
  have b: "\<exists>s. selectBlocks ascii_strings 3 (scripted flat_tree []) ''page'' any_block 5000 sim0
              = Some (Inr s, after_listings [''page'']) \<and> sel_ambiguous s \<and>
            sel_selected s = None \<and> sel_matches s \<noteq> []"
    using selector_resolution [OF normalize_any flatten_flat] h0 by blast
  show ?thesis using a b by auto
qed

lemma plan_range_a_c: "planRange ascii_strings abc_flat range_a_c = Inr (plan_a_c, abc_blocks, abc_blocks)"
  by code_simp

lemma range_a_c_fields:
  "scopeId range_a_c = ''page''" "scanMaxBlocks range_a_c = 5000" "\<not> dryRun range_a_c"
  "length (newBlocks range_a_c) > 0" "plan_parent_id plan_a_c = ''page''"
  by (simp_all add: range_a_c_def plan_a_c_def)

lemma calls_after_listings: "list_all is_list_call (calls (after_listings ps))"
  by (induction ps) (simp_all add: after_listings_def)

text \<open>
  When \<open>b\<close> is edited between the scan and the re-read, the replacement of \<open>a\<close> to \<open>c\<close>
  ends in the conflict error after two listings.
\<close>

theorem changed_fingerprint_conflict_witness:
  "replaceBlockRange ascii_strings 3 (scripted edited_tree []) range_a_c sim0
     = Some (Inl range_changed_error, after_listings [''page'', ''page''])
 \<and> list_all is_list_call (calls (after_listings [''page'', ''page'']))"
proof -
  let ?N = "scripted edited_tree []"
  let ?cur = "edited_tree 1 ''page''"
  have f: "flattenScopeBlocks 3 ?N (scopeId range_a_c) (scanMaxBlocks range_a_c) sim0
             = Some (Inr abc_flat, after_listings [''page''])"
    using flatten_edited by (simp add: range_a_c_fields)
  have l: "listDirectChildren 3 ?N (plan_parent_id plan_a_c) (after_listings [''page''])
             = Some (Inr ?cur, after_listings [''page'', ''page''])"
    by code_simp
  have c: "siblingsFingerprint (currentSiblingsOf (plan_parent_id plan_a_c) ?cur)
             \<noteq> siblingsFingerprint abc_blocks"
    by code_simp
  have "replaceBlockRange ascii_strings 3 ?N range_a_c sim0
          = Some (Inl range_changed_error, after_listings [''page'', ''page''])"
    using changed_fingerprint_conflict [OF f plan_range_a_c range_a_c_fields(3) l c] by blast
  then show ?thesis
    using calls_after_listings by simp
qed

lemma resolve_c:
  "resolveSelectorStrict ascii_strings (blocks abc_flat) (startSelector range_c_a) ''start-selector-json''
     = Inr \<lparr>res_selected = abc_blocks ! 2, res_matches = [abc_blocks ! 2],
            res_selector = \<lparr>n_type = None, n_text_contains = Some ''c'', n_parent_id = None,
                             n_from = FromStart, n_nth = None\<rparr>\<rparr>"
  by code_simp

lemma resolve_a:
  "resolveSelectorStrict ascii_strings (blocks abc_flat) (endSelector range_c_a) ''end-selector-json''
     = Inr \<lparr>res_selected = abc_blocks ! 0, res_matches = [abc_blocks ! 0],
            res_selector = \<lparr>n_type = None, n_text_contains = Some ''a'', n_parent_id = None,
                             n_from = FromStart, n_nth = None\<rparr>\<rparr>"
  by code_simp

lemma resolve_b:
  "resolveSelectorStrict ascii_strings (blocks abc_flat) (by_text ''b'') label
     = Inr \<lparr>res_selected = abc_blocks ! 1, res_matches = [abc_blocks ! 1],
            res_selector = \<lparr>n_type = None, n_text_contains = Some ''b'', n_parent_id = None,
                             n_from = FromStart, n_nth = None\<rparr>\<rparr>"
  by (simp add: resolveSelectorStrict_def normalizeSelector_def by_text_def Let_def
      matchesSelector_def abc_flat_def abc_blocks_def toFlatBlock_def extractBlockText_def
      para_block_def ascii_strings_def lower_char_def)

text \<open>
  The range from \<open>c\<close> back to \<open>a\<close> is rejected; the range that starts after \<open>b\<close> and
  ends with \<open>b\<close> is planned with nothing to delete and the insertion after \<open>b\<close>.
\<close>

theorem start_after_end_rejected_witness:
  "replaceBlockRange ascii_strings 3 (scripted flat_tree []) range_c_a sim0
     = Some (Inl start_after_end_error, after_listings [''page''])
 \<and> (\<exists>plan. planRange ascii_strings abc_flat range_after_b = Inr (plan, abc_blocks, [])
           \<and> delete_ids plan = [] \<and> insert_position plan = AfterBlock ''b'')"
proof -
  let ?c = "\<lparr>res_selected = abc_blocks ! 2, res_matches = [abc_blocks ! 2],
            res_selector = \<lparr>n_type = None, n_text_contains = Some ''c'', n_parent_id = None,
                             n_from = FromStart, n_nth = None\<rparr>\<rparr>"
  let ?a = "\<lparr>res_selected = abc_blocks ! 0, res_matches = [abc_blocks ! 0],
            res_selector = \<lparr>n_type = None, n_text_contains = Some ''a'', n_parent_id = None,
                             n_from = FromStart, n_nth = None\<rparr>\<rparr>"
  let ?b = "\<lparr>res_selected = abc_blocks ! 1, res_matches = [abc_blocks ! 1],
            res_selector = \<lparr>n_type = None, n_text_contains = Some ''b'', n_parent_id = None,
                             n_from = FromStart, n_nth = None\<rparr>\<rparr>"
  have f: "flattenScopeBlocks 3 (scripted flat_tree []) (scopeId range_c_a)
             (scanMaxBlocks range_c_a) sim0 = Some (Inr abc_flat, after_listings [''page''])"
    using flatten_flat by (simp add: range_c_a_def)
  have same: "parent_id (res_selected ?c) = parent_id (res_selected ?a)"
    by (simp add: abc_blocks_def toFlatBlock_def)
  have gt: "sibling_index (res_selected ?c) > sibling_index (res_selected ?a)"
    by (simp add: abc_blocks_def toFlatBlock_def)
  have first: "replaceBlockRange ascii_strings 3 (scripted flat_tree []) range_c_a sim0
     = Some (Inl start_after_end_error, after_listings [''page''])"
    using start_after_end_rejected [OF f resolve_c resolve_a same] gt by blast
  have f2: "flattenScopeBlocks 3 (scripted flat_tree []) (scopeId range_after_b)
             (scanMaxBlocks range_after_b) sim0 = Some (Inr abc_flat, after_listings [''page''])"
    using flatten_flat by (simp add: range_after_b_def)
  have sb: "resolveSelectorStrict ascii_strings (blocks abc_flat) (startSelector range_after_b)
              ''start-selector-json'' = Inr ?b"
    using resolve_b by (simp add: range_after_b_def)
  have eb: "resolveSelectorStrict ascii_strings (blocks abc_flat) (endSelector range_after_b)
              ''end-selector-json'' = Inr ?b"
    using resolve_b by (simp add: range_after_b_def)
  have sibs: "recorded_siblings abc_flat (parent_id (res_selected ?b)) = abc_blocks"
    by (simp add: recorded_siblings_def abc_flat_def abc_blocks_def toFlatBlock_def)
  have af: "adjusted_start range_after_b (res_selected ?b) = 2"
    by (simp add: adjusted_start_def range_after_b_def abc_blocks_def toFlatBlock_def)
  have to: "adjusted_end range_after_b (res_selected ?b) = 1"
    by (simp add: adjusted_end_def range_after_b_def abc_blocks_def toFlatBlock_def)
  have len: "length abc_blocks = 3" and b: "block_id (abc_blocks ! Suc 0) = ''b''"
    by (simp_all add: abc_blocks_def toFlatBlock_def)
  have second: "\<exists>plan. planRange ascii_strings abc_flat range_after_b = Inr (plan, abc_blocks, [])
           \<and> delete_ids plan = [] \<and> insert_position plan = AfterBlock ''b''"
    using start_after_end_rejected [OF f2 sb eb refl] b
    unfolding sibs af to len
    by simp blast
  show ?thesis
    using first second by blast
qed

text \<open>
  C7 as stated fails for the range that starts after \<open>b\<close> (exclusive) and ends with \<open>b\<close>
  (inclusive): the adjusted start index 2 exceeds the adjusted end index 1, yet the request
  is not rejected; the new block is inserted after \<open>b\<close> and nothing is deleted.
\<close>

theorem adjusted_empty_range_proceeds_counterexample:
  "replaceBlockRange ascii_strings 3 (scripted flat_tree []) range_after_b sim0
     = Some (Inr (Replaced plan_after_b 1 [''new''] 0),
             \<lparr>service = \<lparr>listed = 2, removed = []\<rparr>,
              calls = [ListChildren ''page'' None, ListChildren ''page'' None,
                       AppendChildren ''page'' [\<lparr>nb_type = Some ''paragraph''\<rparr>]
                         (AfterBlock ''b'')]\<rparr>)
 \<and> \<not> inclusiveStart range_after_b \<and> inclusiveEnd range_after_b
 \<and> sibling_index (plan_start plan_after_b) = 1 \<and> sibling_index (plan_end plan_after_b) = 1
 \<and> int (sibling_index (plan_start plan_after_b)) + 1
     > int (sibling_index (plan_end plan_after_b))
 \<and> delete_ids plan_after_b = [] \<and> insert_position plan_after_b = AfterBlock ''b''"
  by code_simp

text \<open>
  Replacing \<open>a\<close> to \<open>c\<close> when the service refuses to delete \<open>b\<close> ends in the 502 the
  service threw.
\<close>

theorem partial_delete_raw_error_witness:
  "replaceBlockRange ascii_strings 3 (scripted flat_tree [''b'']) range_a_c sim0
     = Some (Inl bad_gateway,
             \<lparr>service = \<lparr>listed = 2, removed = [''a'']\<rparr>,
              calls = [ListChildren ''page'' None, ListChildren ''page'' None,
                       AppendChildren ''page'' [\<lparr>nb_type = Some ''paragraph''\<rparr>] PositionStart,
                       DeleteBlock ''a'', DeleteBlock ''b'']\<rparr>)"
proof -
  let ?N = "scripted flat_tree [''b'']"
  let ?cur = "flat_tree 1 ''page''"
  let ?R2 = "after_listings [''page'', ''page'']"
  let ?R3 = "\<lparr>service = \<lparr>listed = 2, removed = []\<rparr>,
              calls = calls ?R2 @
                [AppendChildren ''page'' (newBlocks range_a_c) PositionStart]\<rparr>"
  let ?R4 = "\<lparr>service = \<lparr>listed = 2, removed = [''a'']\<rparr>,
              calls = calls ?R3 @ [DeleteBlock ''a'', DeleteBlock ''b'']\<rparr>"
  have f: "flattenScopeBlocks 3 ?N (scopeId range_a_c) (scanMaxBlocks range_a_c) sim0
             = Some (Inr abc_flat, after_listings [''page''])"
    using flatten_flat_failing_b by (simp add: range_a_c_fields)
  have l: "listDirectChildren 3 ?N (plan_parent_id plan_a_c) (after_listings [''page''])
             = Some (Inr ?cur, ?R2)"
    by code_simp
  have c: "siblingsFingerprint (currentSiblingsOf (plan_parent_id plan_a_c) ?cur)
             = siblingsFingerprint abc_blocks"
    by code_simp
  have i: "insertBlocks ?N (plan_parent_id plan_a_c) (newBlocks range_a_c)
             (insert_position plan_a_c) False ?R2
           = (Inr (Inserted ''page'' PositionStart 1 [''new'']), ?R3)"
    by code_simp
  have d: "delete_each ?N abc_blocks ?R3 = (Inl bad_gateway, ?R4)"
    by code_simp
  have "replaceBlockRange ascii_strings 3 ?N range_a_c sim0 = Some (Inl bad_gateway, ?R4)"
    using partial_delete_raw_error
      [OF f plan_range_a_c range_a_c_fields(3) l c range_a_c_fields(4) i d] by blast
  then show ?thesis
    by (simp add: after_listings_def range_a_c_def)
qed

text \<open>
  C9 as stated fails: when the deletion of \<open>b\<close> fails, \<open>a\<close> has been deleted; when the
  deletion of \<open>a\<close> fails, nothing has been deleted; the error that reaches the caller is
  the same 502 in both runs, so it does not tell which blocks were deleted.
\<close>

theorem partial_delete_same_error_counterexample:
  "replaceBlockRange ascii_strings 3 (scripted flat_tree [''b'']) range_a_c sim0
     = Some (Inl bad_gateway,
             \<lparr>service = \<lparr>listed = 2, removed = [''a'']\<rparr>,
              calls = [ListChildren ''page'' None, ListChildren ''page'' None,
                       AppendChildren ''page'' [\<lparr>nb_type = Some ''paragraph''\<rparr>] PositionStart,
                       DeleteBlock ''a'', DeleteBlock ''b'']\<rparr>)
 \<and> replaceBlockRange ascii_strings 3 (scripted flat_tree [''a'']) range_a_c sim0
     = Some (Inl bad_gateway,
             \<lparr>service = \<lparr>listed = 2, removed = []\<rparr>,
              calls = [ListChildren ''page'' None, ListChildren ''page'' None,
                       AppendChildren ''page'' [\<lparr>nb_type = Some ''paragraph''\<rparr>] PositionStart,
                       DeleteBlock ''a'']\<rparr>)"
  by code_simp

end
